theory Spec2Isabelle
  imports Complex_Main "HOL-Library.Word" "HOL-Library.Sublist"
begin

section \<open>Strings and numbers of the host language\<close>

text \<open>
  A TypeScript string is a sequence of UTF-16 code units. \<open>ascii\<close> embeds an ASCII
  literal of the source.
\<close>

type_synonym code_unit = "16 word"
type_synonym jsstring = "code_unit list"

definition ascii :: "string \<Rightarrow> jsstring" where
  "ascii s = map (\<lambda>c. of_nat (of_char c)) s"

text \<open>
  \<open>String.prototype.trim\<close> strips the code units that ECMAScript calls white space or
  line terminators from both ends.
\<close>

definition js_whitespace :: "code_unit \<Rightarrow> bool" where
  "js_whitespace c \<longleftrightarrow> c \<in> set [0x9, 0xA, 0xB, 0xC, 0xD, 0x20, 0xA0, 0x1680,
     0x2000, 0x2001, 0x2002, 0x2003, 0x2004, 0x2005, 0x2006, 0x2007, 0x2008, 0x2009, 0x200A,
     0x2028, 0x2029, 0x202F, 0x205F, 0x3000, 0xFEFF]"

definition js_trim :: "jsstring \<Rightarrow> jsstring" where
  "js_trim s = rev (dropWhile js_whitespace (rev (dropWhile js_whitespace s)))"

text \<open>
  \<open>s.split(sep)\<close> for a separator of one code unit: the pieces between the
  separators, in order; the empty string gives one empty piece.
\<close>

fun js_split :: "'a \<Rightarrow> 'a list \<Rightarrow> 'a list list" where
  "js_split sep [] = [[]]"
| "js_split sep (c # cs) =
     (if c = sep then [] # js_split sep cs
      else (case js_split sep cs of [] \<Rightarrow> [[c]] | l # ls \<Rightarrow> (c # l) # ls))"

text \<open>\<open>hay.includes(needle)\<close>: \<open>needle\<close> occurs in \<open>hay\<close> as a contiguous run.\<close>

fun js_includes :: "'a list \<Rightarrow> 'a list \<Rightarrow> bool" where
  "js_includes [] needle \<longleftrightarrow> needle = []"
| "js_includes (c # cs) needle \<longleftrightarrow> prefix needle (c # cs) \<or> js_includes cs needle"

text \<open>
  The values a \<open>number\<close> slot of this program can hold: what \<open>parseFloat\<close> returns
  (\<open>NaN\<close>, a finite number, an infinity), \<open>null\<close> (what \<open>JSON.stringify\<close> writes for
  a non-finite number) and \<open>undefined\<close> (an array read out of range).
\<close>

datatype jsval = Undefined | Null | NaN | NegInf | Num rat | PosInf

text \<open>\<open>isNaN(n)\<close> and \<open>n > 0\<close>, with the coercions of the language.\<close>

fun js_isNaN :: "jsval \<Rightarrow> bool" where
  "js_isNaN NaN = True"
| "js_isNaN Undefined = True"
| "js_isNaN _ = False"

fun js_positive :: "jsval \<Rightarrow> bool" where
  "js_positive (Num r) \<longleftrightarrow> 0 < r"
| "js_positive PosInf \<longleftrightarrow> True"
| "js_positive _ \<longleftrightarrow> False"

text \<open>\<open>xs[i]\<close>: \<open>undefined\<close> outside the array.\<close>

definition js_index :: "jsval list \<Rightarrow> int \<Rightarrow> jsval" where
  "js_index xs i = (if 0 \<le> i \<and> i < int (length xs) then xs ! nat i else Undefined)"

text \<open>
  The values of \<open>retryCount\<close>: \<open>parseInt\<close> gives an integer or \<open>NaN\<close>, and a stored
  \<open>NaN\<close> is read back as \<open>null\<close>. Every comparison with \<open>NaN\<close> is false; \<open>null\<close>
  compares as \<open>0\<close>.
\<close>

datatype jscount = CountNaN | CountNull | Count int

fun count_le :: "nat \<Rightarrow> jscount \<Rightarrow> bool" where
  "count_le a CountNaN \<longleftrightarrow> False"
| "count_le a CountNull \<longleftrightarrow> int a \<le> 0"
| "count_le a (Count n) \<longleftrightarrow> int a \<le> n"

fun count_lt :: "nat \<Rightarrow> jscount \<Rightarrow> bool" where
  "count_lt a CountNaN \<longleftrightarrow> False"
| "count_lt a CountNull \<longleftrightarrow> int a < 0"
| "count_lt a (Count n) \<longleftrightarrow> int a < n"

text \<open>The number of loop rounds \<open>attempt <= retryCount\<close> still allows from \<open>attempt\<close> on.\<close>

fun rounds_left :: "jscount \<Rightarrow> nat \<Rightarrow> nat" where
  "rounds_left CountNaN a = 0"
| "rounds_left CountNull a = 1 - a"
| "rounds_left (Count n) a = nat (n + 1 - int a)"


section \<open>The component, the provider and the user\<close>

record AppSettings =
  apiKey :: jsstring
  retryCount :: jscount
  retryDelays :: "jsval list"

text \<open>The first geo object of a geocoding result, as far as the program reads it.\<close>

record geo_object =
  coordinates :: "rat list"
  addressLine :: jsstring

text \<open>
  What a rejected provider call carries, as far as the program reads it: \<open>error?.status\<close>
  (a number or absent) and \<open>error?.message\<close> (a string or absent).
\<close>

record js_error =
  status :: "int option"
  message :: "jsstring option"

datatype reply = Match geo_object | NoMatch | Failure js_error

text \<open>
  Every \<open>await\<close> of a run that is followed from its call to its end (a provider call or
  a timer) is one tick of the environment: the tick gives the provider's reply (read by
  provider calls only) and whether the user clicked the search button while the run
  was suspended there. The button runs \<open>toggleSearch\<close>: it stops a search that is
  running and starts one otherwise.
\<close>

record tick =
  provider_reply :: reply
  stop_clicked :: bool

type_synonym env = "nat \<Rightarrow> tick"

record placemark =
  coords :: "rat list"
  iconContent :: nat
  originalAddress :: jsstring
  foundAddress :: jsstring

text \<open>The string literals the program shows; each is a non-empty (truthy) string.\<close>

datatype map_error_text =
  KeyNotConfigured | ScriptLoadFailed | ApiNotLoaded | MapInitFailed | InvalidApiKey

datatype alert_text =
  AlertDelaysInvalid | AlertApiKeyMissing | AlertKeyChanged | AlertMapNotReady

text \<open>
  What the program does to the outside, in order: \<open>ymaps.geocode(address, {boundedBy})\<close>
  (flag \<open>True\<close>) or \<open>ymaps.geocode(address)\<close> (flag \<open>False\<close>) with what the call
  resolved to, the timer \<open>setTimeout(resolve, delaySeconds * 1000)\<close> of a retry with its
  \<open>delaySeconds\<close>, the timer of \<open>GEOCODE_DELAY_MS\<close> milliseconds between two jobs,
  \<open>alert\<close>, \<open>map.setBounds\<close>, \<open>window.location.reload\<close> and the call of
  \<open>loadYandexMapsScript\<close>.
\<close>

datatype effect =
    EGeocode jsstring bool reply
  | ERetryDelay jsval
  | EPause nat
  | EAlert alert_text
  | ESetBounds
  | EReload
  | ELoadScript

datatype thrown = ThrownNull | ThrownError js_error | ThrownCancelled

datatype outcome = Returned "geo_object option" | Threw thrown

text \<open>
  A call of \<open>startSearch\<close> that has not returned is suspended at one of its four
  \<open>await\<close>s: the bounded lookup, the global lookup, the timer of a retry or the pause
  between two jobs. What it resumes with are its local variables: \<open>addresses\<close> and \<open>i\<close>
  of \<open>startSearch\<close>, and \<open>retryCount\<close>, \<open>retryDelays\<close>, \<open>lastError\<close> and \<open>attempt\<close> of
  the call of \<open>geocodeWithRetry\<close> it is in. \<open>run_trace\<close> is the log of the effects of
  this call.
\<close>

datatype run_point = AtBoundedLookup | AtGlobalLookup | AtRetryDelay | AtPause | Ended

record run =
  run_addresses :: "jsstring list"
  run_i :: nat
  run_retryCount :: jscount
  run_retryDelays :: "jsval list"
  run_lastError :: thrown
  run_attempt :: nat
  run_point :: run_point
  run_trace :: "effect list"

text \<open>
  What \<open>JSON.stringify\<close> writes for a settings object, as far as \<open>JSON.parse\<close> reads it
  back: the key, and each number as itself when it is finite and as \<open>null\<close> (here
  \<open>None\<close>) when it is not.
\<close>

record stored_settings =
  stored_apiKey :: jsstring
  stored_retryCount :: "int option"
  stored_retryDelays :: "rat option list"

text \<open>
  The fields of \<open>AppComponent\<close>, the \<open>localStorage\<close> item of the settings, and what the
  model adds: the calls of \<open>startSearch\<close> that the button has made, each at the point
  where it is suspended (or ended), and, for a run that is followed from its call to
  its end, the number of ticks consumed so far and the log of its effects.
\<close>

record AppComponent =
  addressesInput :: jsstring
  isSearching :: bool
  foundAddressesCount :: nat
  totalAddressesCount :: nat
  notFoundAddresses :: "jsstring list"
  mapError :: "map_error_text option"
  mapInitialized :: bool
  isSettingsOpen :: bool
  settings :: AppSettings
  tempApiKey :: jsstring
  tempRetryCount :: jscount
  tempRetryDelays :: jsstring
  geoObjectsCollection :: "placemark list"
  searchCancelled :: bool
  yandexMapsScriptLoaded :: bool
  localStorage :: "stored_settings option"
  runs :: "run list"
  clock :: nat
  effects :: "effect list"

definition GEOCODE_DELAY_MS :: nat where
  "GEOCODE_DELAY_MS = 200"

section \<open>The pieces of startSearch and geocodeWithRetry\<close>

definition stopSearch :: "AppComponent \<Rightarrow> AppComponent" where
  "stopSearch st = st\<lparr>searchCancelled := True, isSearching := False\<rparr>"

definition addPlacemark ::
  "rat list \<Rightarrow> nat \<Rightarrow> jsstring \<Rightarrow> jsstring \<Rightarrow> AppComponent \<Rightarrow> AppComponent" where
  "addPlacemark cs idx original found st =
     st\<lparr>geoObjectsCollection := geoObjectsCollection st @
          [\<lparr>coords = cs, iconContent = idx, originalAddress = original,
            foundAddress = found\<rparr>]\<rparr>"

text \<open>The test of the \<open>catch\<close> block of \<open>geocodeWithRetry\<close> for an error of the API key.\<close>

definition is_auth_error :: "js_error \<Rightarrow> bool" where
  "is_auth_error e \<longleftrightarrow>
     status e = Some 401 \<or> status e = Some 403 \<or>
     (case message e of None \<Rightarrow> False | Some m \<Rightarrow> js_includes m (ascii ''Invalid key'')) \<or>
     (case message e of None \<Rightarrow> False | Some m \<Rightarrow> js_includes m (ascii ''API key''))"

text \<open>The addresses of the input: split at line feeds, trimmed, the empty ones dropped.\<close>

definition address_lines :: "jsstring \<Rightarrow> jsstring list" where
  "address_lines input =
     filter (\<lambda>addr. length addr > 0) (map (\<lambda>addr. js_trim addr) (js_split 0xA input))"

text \<open>The resets at the head of \<open>startSearch\<close>, up to the total.\<close>

definition begin_search :: "AppComponent \<Rightarrow> AppComponent" where
  "begin_search st =
     (let st1 = st\<lparr>isSearching := True, searchCancelled := False, geoObjectsCollection := [],
                     foundAddressesCount := 0, notFoundAddresses := []\<rparr>
      in st1\<lparr>totalAddressesCount := length (address_lines (addressesInput st1))\<rparr>)"

section \<open>A call of startSearch, one suspension at a time\<close>

text \<open>
  The code of a call of \<open>startSearch\<close> between two suspensions, on the component that
  all calls share. Each function takes the call's local variables and the component
  and runs up to the next \<open>await\<close> of a provider call or a timer, or to the end of the
  call; it gives back the local variables, with the point reached, and the component.

  What follows the loop over the addresses: fit the map to the placemarks, if any, and
  end the search.
\<close>

definition end_run :: "run \<Rightarrow> AppComponent \<Rightarrow> run \<times> AppComponent" where
  "end_run r st =
     (r\<lparr>run_point := Ended,
        run_trace := run_trace r @
          (if length (geoObjectsCollection st) > 0 then [ESetBounds] else [])\<rparr>,
      st\<lparr>isSearching := False\<rparr>)"

text \<open>
  The \<open>catch\<close> block of \<open>startSearch\<close>, entered when \<open>geocodeWithRetry\<close> has thrown (the
  error itself is only printed), and the pause after it.
\<close>

definition catch_job :: "run \<Rightarrow> AppComponent \<Rightarrow> run \<times> AppComponent" where
  "catch_job r st =
     (let st1 = st\<lparr>notFoundAddresses := notFoundAddresses st @ [run_addresses r ! run_i r]\<rparr>
      in if mapError st1 \<noteq> None then end_run r (stopSearch st1)
         else (r\<lparr>run_point := AtPause\<rparr>, st1))"

text \<open>What \<open>startSearch\<close> does with the value \<open>geocodeWithRetry\<close> returned, up to the pause.\<close>

definition then_job :: "geo_object option \<Rightarrow> run \<Rightarrow> AppComponent \<Rightarrow> run \<times> AppComponent" where
  "then_job firstGeoObject r st =
     (let address = run_addresses r ! run_i r in
      case firstGeoObject of
        Some g \<Rightarrow>
          (r\<lparr>run_point := AtPause\<rparr>,
           (addPlacemark (coordinates g) (run_i r + 1) address (addressLine g) st)
             \<lparr>foundAddressesCount := foundAddressesCount st + 1\<rparr>)
      | None \<Rightarrow>
          (r\<lparr>run_point := AtPause\<rparr>,
           st\<lparr>notFoundAddresses := notFoundAddresses st @ [address]\<rparr>))"

text \<open>
  The head of the \<open>for\<close> loop of \<open>geocodeWithRetry\<close>: the loop test, the cancellation
  check and the call of the bounded lookup; the loop throws when the test or the check
  fails.
\<close>

definition next_attempt :: "run \<Rightarrow> AppComponent \<Rightarrow> run \<times> AppComponent" where
  "next_attempt r st =
     (if count_le (run_attempt r) (run_retryCount r) then
        if searchCancelled st then catch_job r st
        else (r\<lparr>run_point := AtBoundedLookup\<rparr>, st)
      else catch_job r st)"

text \<open>The \<open>catch\<close> block of \<open>geocodeWithRetry\<close> for the error \<open>e\<close> of a provider call.\<close>

definition catch_attempt :: "js_error \<Rightarrow> run \<Rightarrow> AppComponent \<Rightarrow> run \<times> AppComponent" where
  "catch_attempt e r st =
     (let r1 = r\<lparr>run_lastError := ThrownError e\<rparr> in
      if is_auth_error e then catch_job r1 (st\<lparr>mapError := Some InvalidApiKey\<rparr>)
      else if count_lt (run_attempt r1) (run_retryCount r1)
      then (r1\<lparr>run_point := AtRetryDelay\<rparr>, st)
      else next_attempt (r1\<lparr>run_attempt := Suc (run_attempt r1)\<rparr>) st)"

text \<open>
  The head of the \<open>for\<close> loop of \<open>startSearch\<close>: the loop test, the cancellation check
  and the call of \<open>geocodeWithRetry\<close>, which reads the settings.
\<close>

definition next_job :: "run \<Rightarrow> AppComponent \<Rightarrow> run \<times> AppComponent" where
  "next_job r st =
     (if run_i r < length (run_addresses r) \<and> \<not> searchCancelled st then
        next_attempt
          (r\<lparr>run_retryCount := retryCount (settings st),
             run_retryDelays := retryDelays (settings st),
             run_lastError := ThrownNull, run_attempt := 0\<rparr>) st
      else end_run r st)"

text \<open>
  A suspended call goes on when what it waits for is settled: a provider call with the
  provider's reply, a timer by running out (the reply is not read).
\<close>

definition resume :: "reply \<Rightarrow> run \<Rightarrow> AppComponent \<Rightarrow> run \<times> AppComponent" where
  "resume rep r st =
     (let address = run_addresses r ! run_i r in
      case run_point r of
        AtBoundedLookup \<Rightarrow>
          (let r1 = r\<lparr>run_trace := run_trace r @ [EGeocode address True rep]\<rparr> in
           case rep of
             Failure e \<Rightarrow> catch_attempt e r1 st
           | Match g \<Rightarrow> then_job (Some g) r1 st
           | NoMatch \<Rightarrow> (r1\<lparr>run_point := AtGlobalLookup\<rparr>, st))
      | AtGlobalLookup \<Rightarrow>
          (let r1 = r\<lparr>run_trace := run_trace r @ [EGeocode address False rep]\<rparr> in
           case rep of
             Failure e \<Rightarrow> catch_attempt e r1 st
           | Match g \<Rightarrow> then_job (Some g) r1 st
           | NoMatch \<Rightarrow> then_job None r1 st)
      | AtRetryDelay \<Rightarrow>
          next_attempt
            (r\<lparr>run_trace := run_trace r @
                 [ERetryDelay (js_index (run_retryDelays r)
                    (min (int (run_attempt r)) (int (length (run_retryDelays r)) - 1)))],
               run_attempt := Suc (run_attempt r)\<rparr>) st
      | AtPause \<Rightarrow>
          next_job
            (r\<lparr>run_trace := run_trace r @ [EPause GEOCODE_DELAY_MS],
               run_i := Suc (run_i r)\<rparr>) st
      | Ended \<Rightarrow> (r, st))"

text \<open>
  \<open>startSearch\<close> from its call to its first suspension, or to its end when it
  reaches none.
\<close>

definition call_startSearch :: "AppComponent \<Rightarrow> run \<times> AppComponent" where
  "call_startSearch st =
     (let r0 = \<lparr>run_addresses = [], run_i = 0, run_retryCount = retryCount (settings st),
                 run_retryDelays = retryDelays (settings st), run_lastError = ThrownNull,
                 run_attempt = 0, run_point = Ended, run_trace = []\<rparr>
      in if \<not> mapInitialized st then (r0\<lparr>run_trace := [EAlert AlertMapNotReady]\<rparr>, st)
         else
           (let st1 = begin_search st;
                addresses = address_lines (addressesInput st1);
                r = r0\<lparr>run_addresses := addresses\<rparr>
            in if length addresses = 0 then (r, st1\<lparr>isSearching := False\<rparr>)
               else next_job r st1))"

text \<open>
  The call \<open>this.startSearch()\<close> of \<open>toggleSearch\<close>, which does not wait for it: the new
  call runs up to its first suspension and joins the calls of the page.
\<close>

definition start_run :: "AppComponent \<Rightarrow> AppComponent" where
  "start_run st = (case call_startSearch st of (r, st') \<Rightarrow> st'\<lparr>runs := runs st' @ [r]\<rparr>)"

definition toggleSearch :: "AppComponent \<Rightarrow> AppComponent" where
  "toggleSearch st = (if isSearching st then stopSearch st else start_run st)"

text \<open>What the call number \<open>k\<close> of the page waits for is settled.\<close>

definition settle :: "nat \<Rightarrow> reply \<Rightarrow> AppComponent \<Rightarrow> AppComponent" where
  "settle k rep st =
     (if k < length (runs st) then
        (case resume rep (runs st ! k) st of
           (r', st') \<Rightarrow> st'\<lparr>runs := (runs st')[k := r']\<rparr>)
      else st)"

section \<open>A call of startSearch followed from its call to its end\<close>

text \<open>
  The same code with each \<open>await\<close> read off the environment, so that
  \<open>geocodeWithRetry\<close> and \<open>startSearch\<close> are functions from the state at the call to
  the state at the return. While the call is suspended at a tick, a click (one at
  most per tick) runs \<open>toggleSearch\<close>; a call that such a click starts joins the calls
  of the page at its first suspension and is still waiting there when the followed
  call returns. The events of a page, \<open>ui_step\<close> below, have no such limits: there any
  number of clicks can fall into one suspension, and \<open>settle\<close> lets several calls go
  on side by side. The two views agree: lemma \<open>startSearch_stepwise\<close> shows that the
  followed call is the call of the page that is resumed at every tick, after the
  click of that tick.
\<close>

definition click_while_suspended :: "tick \<Rightarrow> AppComponent \<Rightarrow> AppComponent" where
  "click_while_suspended t st = (if stop_clicked t then toggleSearch st else st)"

definition await_geocode ::
  "env \<Rightarrow> jsstring \<Rightarrow> bool \<Rightarrow> AppComponent \<Rightarrow> reply \<times> AppComponent" where
  "await_geocode env address bounded st =
     (let t = env (clock st);
          st1 = st\<lparr>effects := effects st @ [EGeocode address bounded (provider_reply t)],
                   clock := Suc (clock st)\<rparr>
      in (provider_reply t, click_while_suspended t st1))"

definition await_timeout :: "env \<Rightarrow> effect \<Rightarrow> AppComponent \<Rightarrow> AppComponent" where
  "await_timeout env timer st =
     (let t = env (clock st);
          st1 = st\<lparr>effects := effects st @ [timer], clock := Suc (clock st)\<rparr>
      in click_while_suspended t st1)"

text \<open>
  The body of the \<open>try\<close> block: the lookup bounded by the visible map area, then the
  global lookup when the first gave no geo object. \<open>Inl\<close> is the error a call rejected
  with, \<open>Inr\<close> the value of \<open>firstGeoObject\<close>.
\<close>

definition try_geocode ::
  "env \<Rightarrow> jsstring \<Rightarrow> AppComponent \<Rightarrow> (js_error + geo_object option) \<times> AppComponent" where
  "try_geocode env address st =
     (case await_geocode env address True st of
        (Failure e, st1) \<Rightarrow> (Inl e, st1)
      | (Match g, st1) \<Rightarrow> (Inr (Some g), st1)
      | (NoMatch, st1) \<Rightarrow>
          (case await_geocode env address False st1 of
             (Failure e, st2) \<Rightarrow> (Inl e, st2)
           | (Match g, st2) \<Rightarrow> (Inr (Some g), st2)
           | (NoMatch, st2) \<Rightarrow> (Inr None, st2)))"

text \<open>
  The \<open>for\<close> loop from \<open>attempt\<close> on, with \<open>retryCount\<close> and \<open>retryDelays\<close> as read
  from the settings before the loop, and the \<open>throw lastError\<close> after it.
\<close>

function retry_loop ::
  "env \<Rightarrow> jsstring \<Rightarrow> jscount \<Rightarrow> jsval list \<Rightarrow> thrown \<Rightarrow> nat \<Rightarrow> AppComponent
     \<Rightarrow> outcome \<times> AppComponent" where
  "retry_loop env address rc delays lastError attempt st =
     (if count_le attempt rc then
        if searchCancelled st then (Threw ThrownCancelled, st)
        else
          (case try_geocode env address st of
             (Inr g, st1) \<Rightarrow> (Returned g, st1)
           | (Inl e, st1) \<Rightarrow>
               if is_auth_error e
               then (Threw (ThrownError e), st1\<lparr>mapError := Some InvalidApiKey\<rparr>)
               else if count_lt attempt rc
               then retry_loop env address rc delays (ThrownError e) (Suc attempt)
                      (await_timeout env
                         (ERetryDelay (js_index delays
                            (min (int attempt) (int (length delays) - 1)))) st1)
               else retry_loop env address rc delays (ThrownError e) (Suc attempt) st1)
      else (Threw lastError, st))"
  by pat_completeness auto
termination
  by (relation "measure (\<lambda>(env, address, rc, delays, lastError, attempt, st).
        rounds_left rc attempt)")
     (auto elim!: count_le.elims)

declare retry_loop.simps [simp del]

definition geocodeWithRetry ::
  "env \<Rightarrow> jsstring \<Rightarrow> AppComponent \<Rightarrow> outcome \<times> AppComponent" where
  "geocodeWithRetry env address st =
     retry_loop env address (retryCount (settings st)) (retryDelays (settings st))
       ThrownNull 0 st"

text \<open>
  One round of the \<open>for\<close> loop over the addresses, after its cancellation check: the
  flag says whether the round left the loop by \<open>break\<close>. The loop calls it with
  \<open>i < length addresses\<close> only.
\<close>

definition search_step ::
  "env \<Rightarrow> jsstring list \<Rightarrow> nat \<Rightarrow> AppComponent \<Rightarrow> bool \<times> AppComponent" where
  "search_step env addresses i st =
     (let address = addresses ! i in
      case geocodeWithRetry env address st of
        (Returned (Some g), st1) \<Rightarrow>
          (False, await_timeout env (EPause GEOCODE_DELAY_MS)
             ((addPlacemark (coordinates g) (i + 1) address (addressLine g) st1)
                \<lparr>foundAddressesCount := foundAddressesCount st1 + 1\<rparr>))
      | (Returned None, st1) \<Rightarrow>
          (False, await_timeout env (EPause GEOCODE_DELAY_MS)
             (st1\<lparr>notFoundAddresses := notFoundAddresses st1 @ [address]\<rparr>))
      | (Threw err, st1) \<Rightarrow>
          (let st2 = st1\<lparr>notFoundAddresses := notFoundAddresses st1 @ [address]\<rparr> in
           if mapError st2 \<noteq> None then (True, stopSearch st2)
           else (False, await_timeout env (EPause GEOCODE_DELAY_MS) st2)))"

text \<open>
  The \<open>for\<close> loop from index \<open>i\<close> on, as the list of the component's states at each
  loop head it reaches, followed by the state in which it leaves the loop; the last
  state of the list is the loop's result.
\<close>

function search_states ::
  "env \<Rightarrow> jsstring list \<Rightarrow> nat \<Rightarrow> AppComponent \<Rightarrow> AppComponent list" where
  "search_states env addresses i st =
     st # (if i < length addresses \<and> \<not> searchCancelled st then
             (case search_step env addresses i st of
                (True, st') \<Rightarrow> [st']
              | (False, st') \<Rightarrow> search_states env addresses (Suc i) st')
           else [])"
  by pat_completeness auto
termination
  by (relation "measure (\<lambda>(env, addresses, i, st). length addresses - i)") auto

declare search_states.simps [simp del]

text \<open>What follows the loop: fit the map to the placemarks, if any, and end the search.\<close>

definition finish_search :: "AppComponent \<Rightarrow> AppComponent" where
  "finish_search st =
     (if length (geoObjectsCollection st) > 0
      then st\<lparr>effects := effects st @ [ESetBounds]\<rparr> else st)\<lparr>isSearching := False\<rparr>"

definition startSearch :: "env \<Rightarrow> AppComponent \<Rightarrow> AppComponent" where
  "startSearch env st =
     (if \<not> mapInitialized st then st\<lparr>effects := effects st @ [EAlert AlertMapNotReady]\<rparr>
      else
        (let st1 = begin_search st;
             addresses = address_lines (addressesInput st1)
         in if length addresses = 0 then st1\<lparr>isSearching := False\<rparr>
            else finish_search (last (search_states env addresses 0 st1))))"

section \<open>The followed call among the calls of the page\<close>

text \<open>
  The notions that relate the two views of a call. The call number \<open>k\<close> of a page is
  followed when, at every tick, the click of the tick is handled first and then what
  call \<open>k\<close> waits for is settled with the provider's reply of the tick.
\<close>

definition tick_step :: "env \<Rightarrow> nat \<Rightarrow> AppComponent \<Rightarrow> nat \<Rightarrow> AppComponent" where
  "tick_step env k pg t = settle k (provider_reply (env t)) (click_while_suspended (env t) pg)"

text \<open>The same step on a call held apart from the calls of the page.\<close>

definition pair_tick :: "env \<Rightarrow> run \<times> AppComponent \<Rightarrow> nat \<Rightarrow> run \<times> AppComponent" where
  "pair_tick env p t =
     resume (provider_reply (env t)) (fst p) (click_while_suspended (env t) (snd p))"

text \<open>The page with the call \<open>r\<close> put in as its call number \<open>k\<close>.\<close>

definition with_call :: "nat \<Rightarrow> run \<Rightarrow> AppComponent \<Rightarrow> AppComponent" where
  "with_call k r st = st\<lparr>runs := take k (runs st) @ r # drop k (runs st)\<rparr>"

text \<open>
  The log and the clock are kept by the followed call only; \<open>level\<close> sets them, to
  compare the rest of the component.
\<close>

definition level :: "effect list \<Rightarrow> nat \<Rightarrow> run \<times> AppComponent \<Rightarrow> run \<times> AppComponent" where
  "level E C p = (fst p, (snd p)\<lparr>effects := E, clock := C\<rparr>)"

text \<open>What \<open>startSearch\<close> does when \<open>geocodeWithRetry\<close> has returned or thrown, up to the pause.\<close>

definition after_resolver :: "outcome \<Rightarrow> run \<Rightarrow> AppComponent \<Rightarrow> run \<times> AppComponent" where
  "after_resolver res r s = (case res of Returned g \<Rightarrow> then_job g r s | Threw x \<Rightarrow> catch_job r s)"

section \<open>The settings\<close>

text \<open>
  \<open>parseFloat\<close> and the printing of numbers in \<open>join\<close> belong to the platform and
  work on floating-point numbers; the operations take them as parameters.
\<close>

definition closeSettings :: "AppComponent \<Rightarrow> AppComponent" where
  "closeSettings st = st\<lparr>isSettingsOpen := False\<rparr>"

definition openSettings :: "(jsval list \<Rightarrow> jsstring) \<Rightarrow> AppComponent \<Rightarrow> AppComponent" where
  "openSettings joinDelays st =
     (let current = settings st in
      st\<lparr>tempApiKey := apiKey current, tempRetryCount := retryCount current,
         tempRetryDelays := joinDelays (retryDelays current), isSettingsOpen := True\<rparr>)"

text \<open>The delays of the dialog's text: split at commas, parsed, the invalid ones dropped.\<close>

definition parse_delays :: "(jsstring \<Rightarrow> jsval) \<Rightarrow> jsstring \<Rightarrow> jsval list" where
  "parse_delays parseFloat text_field =
     filter (\<lambda>n. \<not> js_isNaN n \<and> js_positive n)
       (map (\<lambda>s. parseFloat (js_trim s)) (js_split 0x2C text_field))"

text \<open>
  \<open>JSON.stringify\<close> writes a finite number as it is and \<open>null\<close> for \<open>NaN\<close>, for an
  infinity and for \<open>null\<close>; \<open>JSON.parse\<close> reads back what was written.
\<close>

fun stringify_number :: "jsval \<Rightarrow> rat option" where
  "stringify_number (Num r) = Some r"
| "stringify_number _ = None"

fun stringify_count :: "jscount \<Rightarrow> int option" where
  "stringify_count (Count n) = Some n"
| "stringify_count _ = None"

definition JSON_stringify :: "AppSettings \<Rightarrow> stored_settings" where
  "JSON_stringify s =
     \<lparr>stored_apiKey = apiKey s, stored_retryCount = stringify_count (retryCount s),
      stored_retryDelays = map stringify_number (retryDelays s)\<rparr>"

definition JSON_parse :: "stored_settings \<Rightarrow> AppSettings" where
  "JSON_parse stored =
     \<lparr>apiKey = stored_apiKey stored,
      retryCount = (case stored_retryCount stored of None \<Rightarrow> CountNull | Some n \<Rightarrow> Count n),
      retryDelays = map (\<lambda>d. case d of None \<Rightarrow> Null | Some r \<Rightarrow> Num r)
                      (stored_retryDelays stored)\<rparr>"

definition saveSettings :: "(jsstring \<Rightarrow> jsval) \<Rightarrow> AppComponent \<Rightarrow> AppComponent" where
  "saveSettings parseFloat st =
     (let delays = parse_delays parseFloat (tempRetryDelays st)
      in if length delays = 0 then st\<lparr>effects := effects st @ [EAlert AlertDelaysInvalid]\<rparr>
         else
           (let newSettings = \<lparr>apiKey = js_trim (tempApiKey st),
                                retryCount = tempRetryCount st, retryDelays = delays\<rparr>
            in if apiKey newSettings = []
               then st\<lparr>effects := effects st @ [EAlert AlertApiKeyMissing]\<rparr>
               else
                 (let oldApiKey = apiKey (settings st);
                      apiKeyChanged = (oldApiKey \<noteq> apiKey newSettings);
                      st1 = closeSettings
                              (st\<lparr>settings := newSettings,
                                  localStorage := Some (JSON_stringify newSettings)\<rparr>)
                  in if apiKeyChanged \<and> oldApiKey \<noteq> []
                     then st1\<lparr>effects := effects st1 @ [EAlert AlertKeyChanged, EReload]\<rparr>
                     else if \<not> mapInitialized st1 \<and> \<not> yandexMapsScriptLoaded st1
                     then st1\<lparr>effects := effects st1 @ [ELoadScript]\<rparr>
                     else st1)))"

text \<open>
  The stored item is absent or was written by \<open>saveSettings\<close>, so \<open>JSON.parse\<close>
  succeeds on it.
\<close>

definition loadSettings :: "(jsval list \<Rightarrow> jsstring) \<Rightarrow> AppComponent \<Rightarrow> AppComponent" where
  "loadSettings joinDelays st =
     (let st1 = (case localStorage st of
                   None \<Rightarrow> st
                 | Some stored \<Rightarrow> st\<lparr>settings := JSON_parse stored\<rparr>)
      in if apiKey (settings st1) = [] then openSettings joinDelays st1 else st1)"

text \<open>The component as its field initialisers leave it, over a given storage.\<close>

definition initial_component :: "stored_settings option \<Rightarrow> AppComponent" where
  "initial_component stored =
     \<lparr>addressesInput = [], isSearching = False, foundAddressesCount = 0,
      totalAddressesCount = 0, notFoundAddresses = [], mapError = None,
      mapInitialized = False, isSettingsOpen = False,
      settings = \<lparr>apiKey = [], retryCount = Count 3, retryDelays = [Num 1, Num 2, Num 4]\<rparr>,
      tempApiKey = [], tempRetryCount = Count 3, tempRetryDelays = ascii ''1, 2, 4'',
      geoObjectsCollection = [], searchCancelled = False, yandexMapsScriptLoaded = False,
      localStorage = stored, runs = [], clock = 0, effects = []\<rparr>"

definition ngAfterViewInit :: "(jsval list \<Rightarrow> jsstring) \<Rightarrow> AppComponent \<Rightarrow> AppComponent" where
  "ngAfterViewInit joinDelays st =
     (let st1 = loadSettings joinDelays st in
      if apiKey (settings st1) \<noteq> [] then st1\<lparr>effects := effects st1 @ [ELoadScript]\<rparr>
      else st1)"

text \<open>
  What can happen on a page: the handlers of the settings dialog and of the text area,
  the map becoming ready (\<open>initializeMap\<close> creates the collection and sets
  \<open>mapInitialized\<close>), a click on the search button, the settling of what a call of
  \<open>startSearch\<close> waits for, and a reload of the page, which builds the component anew
  over the storage as it is.
\<close>

datatype ui_event =
    OpenSettings
  | CloseSettings
  | SaveSettings
  | ApiKeyChange jsstring
  | RetryCountChange jscount
  | RetryDelaysChange jsstring
  | AddressesChange jsstring
  | MapReady
  | SearchClick
  | Settled nat reply
  | PageReload

fun ui_step ::
  "(jsstring \<Rightarrow> jsval) \<Rightarrow> (jsval list \<Rightarrow> jsstring) \<Rightarrow> AppComponent \<Rightarrow> ui_event
     \<Rightarrow> AppComponent" where
  "ui_step parseFloat joinDelays st OpenSettings = openSettings joinDelays st"
| "ui_step parseFloat joinDelays st CloseSettings = closeSettings st"
| "ui_step parseFloat joinDelays st SaveSettings = saveSettings parseFloat st"
| "ui_step parseFloat joinDelays st (ApiKeyChange v) = st\<lparr>tempApiKey := v\<rparr>"
| "ui_step parseFloat joinDelays st (RetryCountChange v) = st\<lparr>tempRetryCount := v\<rparr>"
| "ui_step parseFloat joinDelays st (RetryDelaysChange v) = st\<lparr>tempRetryDelays := v\<rparr>"
| "ui_step parseFloat joinDelays st (AddressesChange v) = st\<lparr>addressesInput := v\<rparr>"
| "ui_step parseFloat joinDelays st MapReady =
     st\<lparr>geoObjectsCollection := [], mapInitialized := True\<rparr>"
| "ui_step parseFloat joinDelays st SearchClick = toggleSearch st"
| "ui_step parseFloat joinDelays st (Settled k rep) = settle k rep st"
| "ui_step parseFloat joinDelays st PageReload =
     ngAfterViewInit joinDelays (initial_component (localStorage st))"

definition page_history ::
  "(jsstring \<Rightarrow> jsval) \<Rightarrow> (jsval list \<Rightarrow> jsstring) \<Rightarrow> ui_event list \<Rightarrow> AppComponent" where
  "page_history parseFloat joinDelays events =
     foldl (ui_step parseFloat joinDelays)
       (ngAfterViewInit joinDelays (initial_component None)) events"

section \<open>Notions for the statements\<close>

text \<open>The effects a step added: those of the state after it beyond those before it.\<close>

definition new_effects :: "AppComponent \<Rightarrow> AppComponent \<Rightarrow> effect list" where
  "new_effects st st' = drop (length (effects st)) (effects st')"

fun is_bounded_lookup :: "effect \<Rightarrow> bool" where
  "is_bounded_lookup (EGeocode a b r) = b"
| "is_bounded_lookup _ = False"

fun is_global_lookup :: "effect \<Rightarrow> bool" where
  "is_global_lookup (EGeocode a b r) = (\<not> b)"
| "is_global_lookup _ = False"

fun is_lookup :: "effect \<Rightarrow> bool" where
  "is_lookup (EGeocode a b r) = True"
| "is_lookup _ = False"

fun is_retry_delay :: "effect \<Rightarrow> bool" where
  "is_retry_delay (ERetryDelay d) = True"
| "is_retry_delay _ = False"


text \<open>The address a lookup asks for.\<close>

fun lookup_address :: "effect \<Rightarrow> jsstring" where
  "lookup_address (EGeocode a b r) = a"
| "lookup_address _ = []"

text \<open>A provider call that was rejected with an error of the API key.\<close>

fun is_auth_failure :: "effect \<Rightarrow> bool" where
  "is_auth_failure (EGeocode a b (Failure e)) = is_auth_error e"
| "is_auth_failure _ = False"

text \<open>
  What the retry loop is expected to do from attempt \<open>n\<close> and tick \<open>c\<close> on when every call
  fails with the error \<open>errs t\<close> of its tick and \<open>m\<close> retries remain: \<open>m + 1\<close> rounds, each
  a bounded lookup (two ticks apart), all but the last followed by the timer of the
  round.
\<close>

definition failing_rounds ::
  "jsstring \<Rightarrow> jsval list \<Rightarrow> (nat \<Rightarrow> js_error) \<Rightarrow> nat \<Rightarrow> nat \<Rightarrow> nat \<Rightarrow> effect list" where
  "failing_rounds a delays errs n c m =
     concat (map (\<lambda>j. EGeocode a True (Failure (errs (c + 2 * j))) #
                      (if j < m
                       then [ERetryDelay (js_index delays
                               (min (int (n + j)) (int (length delays) - 1)))]
                       else []))
               [0..<Suc m])"

text \<open>
  The fields that neither a call of \<open>startSearch\<close> nor a click on the search button
  writes.
\<close>

definition search_frame :: "AppComponent \<Rightarrow> AppComponent \<Rightarrow> bool" where
  "search_frame st st' \<longleftrightarrow>
     addressesInput st' = addressesInput st \<and>
     mapInitialized st' = mapInitialized st \<and>
     isSettingsOpen st' = isSettingsOpen st \<and>
     settings st' = settings st \<and>
     tempApiKey st' = tempApiKey st \<and>
     tempRetryCount st' = tempRetryCount st \<and>
     tempRetryDelays st' = tempRetryDelays st \<and>
     yandexMapsScriptLoaded st' = yandexMapsScriptLoaded st \<and>
     localStorage st' = localStorage st"

text \<open>What a click on the search button, at a suspension of the followed call, leaves alone.\<close>

definition suspension_frame :: "AppComponent \<Rightarrow> AppComponent \<Rightarrow> bool" where
  "suspension_frame st st' \<longleftrightarrow>
     search_frame st st' \<and> effects st' = effects st \<and> clock st' = clock st \<and>
     mapError st' = mapError st"


definition no_results :: "AppComponent \<Rightarrow> bool" where
  "no_results st \<longleftrightarrow>
     foundAddressesCount st = 0 \<and> notFoundAddresses st = [] \<and> geoObjectsCollection st = []"


text \<open>The delays of the settings, in memory and in the storage, are not empty.\<close>

definition delays_in_effect :: "AppComponent \<Rightarrow> bool" where
  "delays_in_effect st \<longleftrightarrow>
     retryDelays (settings st) \<noteq> [] \<and>
     (case localStorage st of None \<Rightarrow> True | Some s \<Rightarrow> stored_retryDelays s \<noteq> [])"

text \<open>The provider calls of one \<open>try\<close> block that starts at tick \<open>c\<close>.\<close>

definition try_effects :: "env \<Rightarrow> jsstring \<Rightarrow> nat \<Rightarrow> effect list" where
  "try_effects env a c =
     (case provider_reply (env c) of
        NoMatch \<Rightarrow> [EGeocode a True NoMatch, EGeocode a False (provider_reply (env (Suc c)))]
      | r \<Rightarrow> [EGeocode a True r])"

section \<open>Components and environments for the examples\<close>

text \<open>An environment in which the provider finds nothing and nobody clicks.\<close>

definition quiet_env :: env where
  "quiet_env = (\<lambda>t. \<lparr>provider_reply = NoMatch, stop_clicked = False\<rparr>)"

text \<open>A component whose map is ready, with two retries and the delays 1 and 2.\<close>

definition ready_component :: AppComponent where
  "ready_component =
     (initial_component None)
       \<lparr>mapInitialized := True,
        settings := \<lparr>apiKey = ascii ''key'', retryCount = Count 2,
                     retryDelays = [Num 1, Num 2]\<rparr>\<rparr>"

text \<open>A provider that rejects every call with status 403.\<close>

definition forbidden :: js_error where
  "forbidden = \<lparr>status = Some 403, message = None\<rparr>"

definition forbidden_env :: env where
  "forbidden_env = (\<lambda>t. \<lparr>provider_reply = Failure forbidden, stop_clicked = False\<rparr>)"

text \<open>A provider that rejects every call with status 500, an error worth a retry.\<close>

definition transient :: js_error where
  "transient = \<lparr>status = Some 500, message = None\<rparr>"

definition failing_env :: env where
  "failing_env = (\<lambda>t. \<lparr>provider_reply = Failure transient, stop_clicked = False\<rparr>)"

text \<open>An environment that plays a list of ticks and is quiet after it.\<close>

definition scripted :: "tick list \<Rightarrow> env" where
  "scripted ticks =
     (\<lambda>t. if t < length ticks then ticks ! t
          else \<lparr>provider_reply = NoMatch, stop_clicked = False\<rparr>)"

text \<open>
  The example of the specification: the input \<open>A\<close>, an empty line, \<open>B\<close>, with a provider
  that finds \<open>A\<close> and does not find \<open>B\<close>.
\<close>

definition house :: geo_object where
  "house = \<lparr>coordinates = [55, 37], addressLine = ascii ''Moscow''\<rparr>"

definition two_lines :: jsstring where
  "two_lines = ascii ''A'' @ [0xA, 0xA] @ ascii ''B''"

definition house_env :: env where
  "house_env = scripted [\<lparr>provider_reply = Match house, stop_clicked = False\<rparr>]"

definition two_lines_component :: AppComponent where
  "two_lines_component = ready_component\<lparr>addressesInput := two_lines\<rparr>"

text \<open>
  Three clicks on the search button of that page: the search is started, it is stopped
  while its first lookup is pending, and it is started again.
\<close>

definition stop_and_restart :: AppComponent where
  "stop_and_restart = toggleSearch (toggleSearch (toggleSearch two_lines_component))"

text \<open>
  Stand-ins for the platform's \<open>parseFloat\<close> and \<open>join\<close>, right on the few strings of the
  examples, and a component with the settings dialog filled in.
\<close>

definition toy_parseFloat :: "jsstring \<Rightarrow> jsval" where
  "toy_parseFloat s =
     (if s = ascii ''1'' then Num 1 else if s = ascii ''2'' then Num 2
      else if s = ascii ''Infinity'' then PosInf else NaN)"

definition toy_join :: "jsval list \<Rightarrow> jsstring" where
  "toy_join ds = ascii ''1, 2, 4''"

definition dialog_component :: "jsstring \<Rightarrow> AppComponent" where
  "dialog_component txt =
     ready_component\<lparr>tempApiKey := ascii ''key'', tempRetryDelays := txt\<rparr>"

section \<open>Suspension points and the rounds of the retry loop\<close>

lemma search_frame_refl: "search_frame st st"
  by (simp add: search_frame_def)

lemma search_frame_trans: "search_frame st st1 \<Longrightarrow> search_frame st1 st2 \<Longrightarrow> search_frame st st2"
  by (simp add: search_frame_def)

lemma suspension_frame_refl: "suspension_frame st st"
  by (simp add: suspension_frame_def search_frame_def)

text \<open>
  What the code of a call does between two suspensions leaves alone: the fields of the
  frame, and the log and the clock of the followed call.
\<close>

lemma end_run_frame: "search_frame st (snd (end_run r st))"
  "effects (snd (end_run r st)) = effects st" "clock (snd (end_run r st)) = clock st"
  "mapError (snd (end_run r st)) = mapError st" "runs (snd (end_run r st)) = runs st"
  by (simp_all add: end_run_def search_frame_def)

lemma catch_job_frame: "search_frame st (snd (catch_job r st))"
  "effects (snd (catch_job r st)) = effects st" "clock (snd (catch_job r st)) = clock st"
  "mapError (snd (catch_job r st)) = mapError st" "runs (snd (catch_job r st)) = runs st"
  by (simp_all add: catch_job_def end_run_def stopSearch_def search_frame_def Let_def)

lemma next_attempt_frame: "search_frame st (snd (next_attempt r st))"
  "effects (snd (next_attempt r st)) = effects st" "clock (snd (next_attempt r st)) = clock st"
  "mapError (snd (next_attempt r st)) = mapError st" "runs (snd (next_attempt r st)) = runs st"
  by (simp_all add: next_attempt_def catch_job_frame search_frame_refl)

lemma next_job_frame: "search_frame st (snd (next_job r st))"
  "effects (snd (next_job r st)) = effects st" "clock (snd (next_job r st)) = clock st"
  "mapError (snd (next_job r st)) = mapError st" "runs (snd (next_job r st)) = runs st"
  by (simp_all add: next_job_def next_attempt_frame end_run_frame)

lemma begin_search_fields:
  "foundAddressesCount (begin_search st) = 0"
  "notFoundAddresses (begin_search st) = []"
  "totalAddressesCount (begin_search st) = length (address_lines (addressesInput st))"
  "addressesInput (begin_search st) = addressesInput st"
  "\<not> searchCancelled (begin_search st)"
  "isSearching (begin_search st)"
  "geoObjectsCollection (begin_search st) = []"
  "effects (begin_search st) = effects st"
  "clock (begin_search st) = clock st"
  "settings (begin_search st) = settings st"
  "localStorage (begin_search st) = localStorage st"
  "mapError (begin_search st) = mapError st"
  "mapInitialized (begin_search st) = mapInitialized st"
  "runs (begin_search st) = runs st"
  by (simp_all add: begin_search_def Let_def)

lemma begin_search_frame: "search_frame st (begin_search st)"
  by (simp add: search_frame_def begin_search_def Let_def)

lemma call_startSearch_frame:
  "search_frame st (snd (call_startSearch st))"
  "effects (snd (call_startSearch st)) = effects st"
  "clock (snd (call_startSearch st)) = clock st"
  "mapError (snd (call_startSearch st)) = mapError st"
  "runs (snd (call_startSearch st)) = runs st"
proof -
  have b: "\<And>r. search_frame st (snd (next_job r (begin_search st)))"
    using begin_search_frame[of st] next_job_frame(1) by (rule search_frame_trans)
  show "search_frame st (snd (call_startSearch st))"
    using b begin_search_frame[of st]
    by (simp add: call_startSearch_def Let_def search_frame_refl)
       (simp add: search_frame_def)
  show "effects (snd (call_startSearch st)) = effects st"
    "clock (snd (call_startSearch st)) = clock st"
    "mapError (snd (call_startSearch st)) = mapError st"
    "runs (snd (call_startSearch st)) = runs st"
    by (simp_all add: call_startSearch_def Let_def next_job_frame begin_search_fields)
qed

lemma start_run_frame: "suspension_frame st (start_run st)"
  using call_startSearch_frame[of st]
  by (auto simp add: start_run_def suspension_frame_def search_frame_def split: prod.splits)

lemma toggleSearch_frame: "suspension_frame st (toggleSearch st)"
  using start_run_frame[of st]
  by (simp add: toggleSearch_def stopSearch_def suspension_frame_def search_frame_def)

lemma click_frame: "suspension_frame st (click_while_suspended t st)"
  by (simp add: click_while_suspended_def toggleSearch_frame suspension_frame_refl)

lemma await_timeout_click:
  "await_timeout env tm st =
     click_while_suspended (env (clock st))
       (st\<lparr>effects := effects st @ [tm], clock := Suc (clock st)\<rparr>)"
  by (simp add: await_timeout_def Let_def)

lemma await_geocode_click:
  "await_geocode env a b st =
     (provider_reply (env (clock st)),
      click_while_suspended (env (clock st))
        (st\<lparr>effects := effects st @ [EGeocode a b (provider_reply (env (clock st)))],
            clock := Suc (clock st)\<rparr>))"
  by (simp add: await_geocode_def Let_def)

lemma await_timeout_fields:
  "effects (await_timeout env tm st) = effects st @ [tm]"
  "clock (await_timeout env tm st) = Suc (clock st)"
  "mapError (await_timeout env tm st) = mapError st"
  "search_frame st (await_timeout env tm st)"
  using click_frame[where st = "st\<lparr>effects := effects st @ [tm], clock := Suc (clock st)\<rparr>"
      and t = "env (clock st)"]
  by (simp_all add: await_timeout_click suspension_frame_def search_frame_def)

lemma await_geocode_fields:
  "fst (await_geocode env a b st) = provider_reply (env (clock st))"
  "effects (snd (await_geocode env a b st)) =
     effects st @ [EGeocode a b (provider_reply (env (clock st)))]"
  "clock (snd (await_geocode env a b st)) = Suc (clock st)"
  "mapError (snd (await_geocode env a b st)) = mapError st"
  "search_frame st (snd (await_geocode env a b st))"
  using click_frame[where st = "st\<lparr>effects := effects st @ [EGeocode a b (provider_reply (env (clock st)))],
      clock := Suc (clock st)\<rparr>" and t = "env (clock st)"]
  by (simp_all add: await_geocode_click suspension_frame_def search_frame_def)

lemma click_fields:
  "effects (click_while_suspended t st) = effects st"
  "clock (click_while_suspended t st) = clock st"
  "mapError (click_while_suspended t st) = mapError st"
  "settings (click_while_suspended t st) = settings st"
  "addressesInput (click_while_suspended t st) = addressesInput st"
  "mapInitialized (click_while_suspended t st) = mapInitialized st"
  "localStorage (click_while_suspended t st) = localStorage st"
  using click_frame[of st t] by (simp_all add: suspension_frame_def search_frame_def)

lemma try_geocode_frame: "search_frame st (snd (try_geocode env a st))"
proof -
  have "search_frame st (snd (await_geocode env a True st))"
    by (rule await_geocode_fields)
  moreover have "search_frame (snd (await_geocode env a True st))
                   (snd (await_geocode env a False (snd (await_geocode env a True st))))"
    by (rule await_geocode_fields)
  ultimately have "search_frame st
                   (snd (await_geocode env a False (snd (await_geocode env a True st))))"
    by (rule search_frame_trans)
  then show ?thesis
    using \<open>search_frame st (snd (await_geocode env a True st))\<close>
    by (auto simp add: try_geocode_def split: reply.splits prod.splits)
qed

lemma try_geocode_effects:
  "effects (snd (try_geocode env a st)) = effects st @ try_effects env a (clock st)"
  by (simp add: try_geocode_def try_effects_def await_geocode_click click_fields
      split: reply.splits)

lemma try_geocode_clock:
  "clock (snd (try_geocode env a st)) = clock st + length (try_effects env a (clock st))"
  by (simp add: try_geocode_def try_effects_def await_geocode_click click_fields
      split: reply.splits)

lemma retry_loop_done:
  "\<not> count_le attempt rc \<Longrightarrow> retry_loop env a rc delays le attempt st = (Threw le, st)"
  by (subst retry_loop.simps) simp

lemma retry_loop_cancelled:
  "count_le attempt rc \<Longrightarrow> searchCancelled st \<Longrightarrow>
   retry_loop env a rc delays le attempt st = (Threw ThrownCancelled, st)"
  by (subst retry_loop.simps) simp

lemma retry_loop_returns:
  "count_le attempt rc \<Longrightarrow> \<not> searchCancelled st \<Longrightarrow> try_geocode env a st = (Inr g, st1) \<Longrightarrow>
   retry_loop env a rc delays le attempt st = (Returned g, st1)"
  by (subst retry_loop.simps) simp

lemma retry_loop_auth:
  "count_le attempt rc \<Longrightarrow> \<not> searchCancelled st \<Longrightarrow> try_geocode env a st = (Inl e, st1) \<Longrightarrow>
   is_auth_error e \<Longrightarrow>
   retry_loop env a rc delays le attempt st =
     (Threw (ThrownError e), st1\<lparr>mapError := Some InvalidApiKey\<rparr>)"
  by (subst retry_loop.simps) simp

lemma retry_loop_retry:
  "count_le attempt rc \<Longrightarrow> \<not> searchCancelled st \<Longrightarrow> try_geocode env a st = (Inl e, st1) \<Longrightarrow>
   \<not> is_auth_error e \<Longrightarrow> count_lt attempt rc \<Longrightarrow>
   retry_loop env a rc delays le attempt st =
     retry_loop env a rc delays (ThrownError e) (Suc attempt)
       (await_timeout env
          (ERetryDelay (js_index delays (min (int attempt) (int (length delays) - 1)))) st1)"
  by (subst retry_loop.simps) simp

lemma retry_loop_last:
  "count_le attempt rc \<Longrightarrow> \<not> searchCancelled st \<Longrightarrow> try_geocode env a st = (Inl e, st1) \<Longrightarrow>
   \<not> is_auth_error e \<Longrightarrow> \<not> count_lt attempt rc \<Longrightarrow>
   retry_loop env a rc delays le attempt st =
     retry_loop env a rc delays (ThrownError e) (Suc attempt) st1"
  by (subst retry_loop.simps) simp

lemma retry_loop_rounds:
  assumes exhausted: "\<And>le n st. \<not> count_le n rc \<Longrightarrow> P le n st (Threw le, st)"
    and cancelled: "\<And>le n st. count_le n rc \<Longrightarrow> searchCancelled st \<Longrightarrow>
           P le n st (Threw ThrownCancelled, st)"
    and returns: "\<And>le n st g st1. count_le n rc \<Longrightarrow> \<not> searchCancelled st \<Longrightarrow>
           try_geocode env a st = (Inr g, st1) \<Longrightarrow> P le n st (Returned g, st1)"
    and auth: "\<And>le n st e st1. count_le n rc \<Longrightarrow> \<not> searchCancelled st \<Longrightarrow>
           try_geocode env a st = (Inl e, st1) \<Longrightarrow> is_auth_error e \<Longrightarrow>
           P le n st (Threw (ThrownError e), st1\<lparr>mapError := Some InvalidApiKey\<rparr>)"
    and retry: "\<And>le n st e st1 st2. count_le n rc \<Longrightarrow> \<not> searchCancelled st \<Longrightarrow>
           try_geocode env a st = (Inl e, st1) \<Longrightarrow> \<not> is_auth_error e \<Longrightarrow> count_lt n rc \<Longrightarrow>
           st2 = await_timeout env
                   (ERetryDelay (js_index delays (min (int n) (int (length delays) - 1)))) st1 \<Longrightarrow>
           P (ThrownError e) (Suc n) st2 (retry_loop env a rc delays (ThrownError e) (Suc n) st2) \<Longrightarrow>
           P le n st (retry_loop env a rc delays (ThrownError e) (Suc n) st2)"
    and final: "\<And>le n st e st1. count_le n rc \<Longrightarrow> \<not> searchCancelled st \<Longrightarrow>
           try_geocode env a st = (Inl e, st1) \<Longrightarrow> \<not> is_auth_error e \<Longrightarrow> \<not> count_lt n rc \<Longrightarrow>
           P (ThrownError e) (Suc n) st1 (retry_loop env a rc delays (ThrownError e) (Suc n) st1) \<Longrightarrow>
           P le n st (retry_loop env a rc delays (ThrownError e) (Suc n) st1)"
  shows "P le n st (retry_loop env a rc delays le n st)"
  using assms
proof (induction env a rc delays le n st rule: retry_loop.induct)
  case (1 env address rc delays lastError attempt st)
  show ?case
  proof (cases "count_le attempt rc")
    case False
    then show ?thesis using "1.prems"(1) by (simp add: retry_loop_done)
  next
    case c: True
    show ?thesis
    proof (cases "searchCancelled st")
      case True
      then show ?thesis using c "1.prems"(2) by (simp add: retry_loop_cancelled)
    next
      case nc: False
      obtain x st1 where t: "try_geocode env address st = (x, st1)"
        by (cases "try_geocode env address st")
      show ?thesis
      proof (cases x)
        case (Inr g)
        then show ?thesis using c nc t "1.prems"(3) by (simp add: retry_loop_returns)
      next
        case (Inl e)
        show ?thesis
        proof (cases "is_auth_error e")
          case True
          then show ?thesis using c nc t Inl "1.prems"(4) by (simp add: retry_loop_auth)
        next
          case na: False
          show ?thesis
          proof (cases "count_lt attempt rc")
            case lt: True
            have "P (ThrownError e) (Suc attempt)
                    (await_timeout env (ERetryDelay (js_index delays
                       (min (int attempt) (int (length delays) - 1)))) st1)
                    (retry_loop env address rc delays (ThrownError e) (Suc attempt)
                       (await_timeout env (ERetryDelay (js_index delays
                          (min (int attempt) (int (length delays) - 1)))) st1))"
              by (rule "1.IH"(1)[OF c nc t[symmetric] Inl na lt "1.prems"])
            then show ?thesis
              using "1.prems"(5)[OF c nc _ na lt refl] t Inl c nc na lt
              by (simp add: retry_loop_retry)
          next
            case nlt: False
            have "P (ThrownError e) (Suc attempt) st1
                    (retry_loop env address rc delays (ThrownError e) (Suc attempt) st1)"
              by (rule "1.IH"(2)[OF c nc t[symmetric] Inl na nlt "1.prems"])
            then show ?thesis
              using "1.prems"(6)[OF c nc _ na nlt] t Inl c nc na nlt
              by (simp add: retry_loop_last)
          qed
        qed
      qed
    qed
  qed
qed


section \<open>A search before the map is ready\<close>

text \<open>
  Claim C10. When \<open>startSearch\<close> runs while the map is not initialised, it returns at
  once: it consumes no tick (no provider call, no timer), its only effect is the
  alert, and every field of the component keeps its value, among them \<open>isSearching\<close>,
  the two counters, the list of addresses not found, the cancellation flag and the
  collection of placemarks.
\<close>

theorem startSearch_map_not_ready:
  assumes "\<not> mapInitialized st"
  shows "startSearch env st = st\<lparr>effects := effects st @ [EAlert AlertMapNotReady]\<rparr> \<and>
         isSearching (startSearch env st) = isSearching st \<and>
         foundAddressesCount (startSearch env st) = foundAddressesCount st \<and>
         totalAddressesCount (startSearch env st) = totalAddressesCount st \<and>
         notFoundAddresses (startSearch env st) = notFoundAddresses st \<and>
         searchCancelled (startSearch env st) = searchCancelled st \<and>
         geoObjectsCollection (startSearch env st) = geoObjectsCollection st \<and>
         clock (startSearch env st) = clock st \<and>
         new_effects st (startSearch env st) = [EAlert AlertMapNotReady]"
  using assms by (simp add: startSearch_def new_effects_def)

theorem startSearch_map_not_ready_witness:
  "\<not> mapInitialized (initial_component None) \<and>
   startSearch quiet_env (initial_component None) =
     (initial_component None)\<lparr>effects := [EAlert AlertMapNotReady]\<rparr> \<and>
   new_effects (initial_component None) (startSearch quiet_env (initial_component None)) =
     [EAlert AlertMapNotReady]"
proof -
  have h: "\<not> mapInitialized (initial_component None)"
    by (simp add: initial_component_def)
  have e: "effects (initial_component None) = []"
    by (simp add: initial_component_def)
  show ?thesis
    using h e startSearch_map_not_ready [OF h, of quiet_env] by (simp add: new_effects_def)
qed

section \<open>The effects of the retry loop\<close>

lemma new_effects_self: "new_effects st st = []"
  by (simp add: new_effects_def)

lemma try_geocode_new:
  "new_effects st (snd (try_geocode env a st)) = try_effects env a (clock st)"
  by (simp add: new_effects_def try_geocode_effects)

lemma try_effects_nonempty: "try_effects env a c \<noteq> []"
  by (simp add: try_effects_def split: reply.splits)

text \<open>What one try block returns, read off its provider calls.\<close>

lemma try_geocode_Inr:
  assumes "try_geocode env a st = (Inr g, st1)"
  shows "\<forall>ev \<in> set (try_effects env a (clock st)). \<not> is_auth_failure ev"
  using assms
  by (auto simp add: try_geocode_def try_effects_def await_geocode_click click_fields
      split: reply.splits)

lemma try_geocode_Inl:
  assumes "try_geocode env a st = (Inl e, st1)"
  shows "\<exists>b. last (try_effects env a (clock st)) = EGeocode a b (Failure e)"
    and "\<forall>ev \<in> set (butlast (try_effects env a (clock st))). \<not> is_auth_failure ev"
  using assms
  by (auto simp add: try_geocode_def try_effects_def await_geocode_click click_fields
      split: reply.splits)

lemma retry_loop_grows:
  "\<exists>new. effects (snd (retry_loop env a rc delays le n st)) = effects st @ new \<and>
         clock (snd (retry_loop env a rc delays le n st)) = clock st + length new"
proof (rule retry_loop_rounds[where P = "\<lambda>le n st res.
         \<exists>new. effects (snd res) = effects st @ new \<and> clock (snd res) = clock st + length new"],
       goal_cases)
  case (1 le n st) then show ?case by simp
next
  case (2 le n st) then show ?case by simp
next
  case (3 le n st g st1)
  then show ?case using try_geocode_effects[of env a st] try_geocode_clock[of env a st] by simp
next
  case (4 le n st e st1)
  then show ?case using try_geocode_effects[of env a st] try_geocode_clock[of env a st] by simp
next
  case (5 le n st e st1 st2)
  then show ?case using try_geocode_effects[of env a st] try_geocode_clock[of env a st]
    by (auto simp add: await_timeout_fields)
next
  case (6 le n st e st1)
  then show ?case using try_geocode_effects[of env a st] try_geocode_clock[of env a st]
    by auto
qed

lemma retry_loop_effects:
  "effects (snd (retry_loop env a rc delays le n st)) =
     effects st @ new_effects st (snd (retry_loop env a rc delays le n st))"
  using retry_loop_grows[of env a rc delays le n st] by (auto simp add: new_effects_def)

lemma retry_loop_clock:
  "clock (snd (retry_loop env a rc delays le n st)) =
     clock st + length (new_effects st (snd (retry_loop env a rc delays le n st)))"
  using retry_loop_grows[of env a rc delays le n st] by (auto simp add: new_effects_def)

text \<open>The effects of a round that goes on: those of its try block, its timer, the rest.\<close>

lemma new_effects_retry:
  assumes "try_geocode env a st = (x, st1)"
    and "st2 = await_timeout env tm st1"
  shows "new_effects st (snd (retry_loop env a rc delays le n st2)) =
           try_effects env a (clock st) @
           tm # new_effects st2 (snd (retry_loop env a rc delays le n st2))"
proof -
  have e2: "effects st2 = effects st @ try_effects env a (clock st) @ [tm]"
    using assms try_geocode_effects[of env a st] by (simp add: await_timeout_fields)
  obtain new where n: "effects (snd (retry_loop env a rc delays le n st2)) = effects st2 @ new"
    using retry_loop_grows[of env a rc delays le n st2] by blast
  have "new_effects st2 (snd (retry_loop env a rc delays le n st2)) = new"
    using n by (simp add: new_effects_def)
  moreover have "new_effects st (snd (retry_loop env a rc delays le n st2)) =
      try_effects env a (clock st) @ tm # new"
    using n e2 by (simp add: new_effects_def)
  ultimately show ?thesis by simp
qed

lemma new_effects_final:
  assumes "try_geocode env a st = (x, st1)"
  shows "new_effects st (snd (retry_loop env a rc delays le n st1)) =
           try_effects env a (clock st) @
           new_effects st1 (snd (retry_loop env a rc delays le n st1))"
proof -
  have e1: "effects st1 = effects st @ try_effects env a (clock st)"
    using assms try_geocode_effects[of env a st] by simp
  obtain new where n: "effects (snd (retry_loop env a rc delays le n st1)) = effects st1 @ new"
    using retry_loop_grows[of env a rc delays le n st1] by blast
  have "new_effects st1 (snd (retry_loop env a rc delays le n st1)) = new"
    using n by (simp add: new_effects_def)
  moreover have "new_effects st (snd (retry_loop env a rc delays le n st1)) =
      try_effects env a (clock st) @ new"
    using n e1 by (simp add: new_effects_def)
  ultimately show ?thesis by simp
qed

lemma in_set_butlast_or_last: "ev \<in> set xs \<Longrightarrow> ev \<in> set (butlast xs) \<or> ev = last xs"
  by (induction xs) auto

section \<open>Errors of the API key\<close>

text \<open>
  In the effects of the retry loop only the last one can be a call rejected with an
  error of the API key, and then the loop has thrown that error and set \<open>mapError\<close>.
\<close>

lemma retry_loop_auth_failure_last:
  "(\<forall>ev \<in> set (butlast (new_effects st (snd (retry_loop env a rc delays le n st)))).
       \<not> is_auth_failure ev) \<and>
   (new_effects st (snd (retry_loop env a rc delays le n st)) \<noteq> [] \<and>
    is_auth_failure (last (new_effects st (snd (retry_loop env a rc delays le n st)))) \<longrightarrow>
      (\<exists>b e. last (new_effects st (snd (retry_loop env a rc delays le n st))) =
                EGeocode a b (Failure e) \<and>
             fst (retry_loop env a rc delays le n st) = Threw (ThrownError e)) \<and>
      mapError (snd (retry_loop env a rc delays le n st)) = Some InvalidApiKey)"
proof (rule retry_loop_rounds[where P = "\<lambda>le n st res.
         (\<forall>ev \<in> set (butlast (new_effects st (snd res))). \<not> is_auth_failure ev) \<and>
         (new_effects st (snd res) \<noteq> [] \<and> is_auth_failure (last (new_effects st (snd res))) \<longrightarrow>
            (\<exists>b e. last (new_effects st (snd res)) = EGeocode a b (Failure e) \<and>
                   fst res = Threw (ThrownError e)) \<and>
            mapError (snd res) = Some InvalidApiKey)"], goal_cases)
  case (1 le n st) then show ?case by (simp add: new_effects_self)
next
  case (2 le n st) then show ?case by (simp add: new_effects_self)
next
  case (3 le n st g st1)
  have "new_effects st st1 = try_effects env a (clock st)"
    using 3 try_geocode_new[of st env a] by simp
  then show ?case using try_geocode_Inr[OF 3(3)] try_effects_nonempty[of env a "clock st"]
    by (auto dest: in_set_butlastD)
next
  case (4 le n st e st1)
  have "new_effects st (st1\<lparr>mapError := Some InvalidApiKey\<rparr>) = try_effects env a (clock st)"
    using 4 try_geocode_new[of st env a] by (simp add: new_effects_def)
  then show ?case using try_geocode_Inl[OF 4(3)] by auto
next
  case (5 le n st e st1 st2)
  let ?r = "retry_loop env a rc delays (ThrownError e) (Suc n) st2"
  let ?tm = "ERetryDelay (js_index delays (min (int n) (int (length delays) - 1)))"
  have ne: "new_effects st (snd ?r) = try_effects env a (clock st) @ ?tm # new_effects st2 (snd ?r)"
    using new_effects_retry[OF 5(3) 5(6)] .
  have t: "\<forall>ev \<in> set (try_effects env a (clock st)). \<not> is_auth_failure ev"
  proof
    fix ev assume "ev \<in> set (try_effects env a (clock st))"
    then have "ev \<in> set (butlast (try_effects env a (clock st))) \<or>
               ev = last (try_effects env a (clock st))"
      by (rule in_set_butlast_or_last)
    then show "\<not> is_auth_failure ev"
      using try_geocode_Inl[OF 5(3)] 5(4) by auto
  qed
  show ?case
  proof (cases "new_effects st2 (snd ?r) = []")
    case True
    then show ?thesis using ne t by (simp add: butlast_append)
  next
    case False
    then show ?thesis using ne t 5(7) by (auto simp add: butlast_append)
  qed
next
  case (6 le n st e st1)
  let ?r = "retry_loop env a rc delays (ThrownError e) (Suc n) st1"
  have ne: "new_effects st (snd ?r) = try_effects env a (clock st) @ new_effects st1 (snd ?r)"
    using new_effects_final[OF 6(3)] .
  have t: "\<forall>ev \<in> set (try_effects env a (clock st)). \<not> is_auth_failure ev"
  proof
    fix ev assume "ev \<in> set (try_effects env a (clock st))"
    then have "ev \<in> set (butlast (try_effects env a (clock st))) \<or>
               ev = last (try_effects env a (clock st))"
      by (rule in_set_butlast_or_last)
    then show "\<not> is_auth_failure ev"
      using try_geocode_Inl[OF 6(3)] 6(4) by auto
  qed
  show ?case
  proof (cases "new_effects st1 (snd ?r) = []")
    case True
    then show ?thesis using ne t by (auto simp add: butlast_append dest: in_set_butlastD)
  next
    case False
    then show ?thesis using ne t 6(6) by (auto simp add: butlast_append)
  qed
qed

lemma ready_component_fields:
  "effects ready_component = []" "clock ready_component = 0"
  "\<not> searchCancelled ready_component" "mapInitialized ready_component"
  "retryCount (settings ready_component) = Count 2"
  "retryDelays (settings ready_component) = [Num 1, Num 2]"
  "mapError ready_component = None"
  by (simp_all add: ready_component_def initial_component_def)

lemma forbidden_run:
  "geocodeWithRetry forbidden_env (ascii ''A'') ready_component =
     (Threw (ThrownError forbidden),
      ready_component\<lparr>effects := [EGeocode (ascii ''A'') True (Failure forbidden)],
                        clock := 1, mapError := Some InvalidApiKey\<rparr>)"
  by code_simp

text \<open>
  Claim C3. Whenever, in a run of \<open>geocodeWithRetry\<close> for any address and any settings,
  a provider call (bounded or global, in any attempt) is rejected with status 401 or 403
  or with a message that contains \<open>Invalid key\<close>, that call is the last effect of the
  run (no further lookup and no timer follow, however many attempts remain), the run
  throws that very error, and \<open>mapError\<close> is set.
\<close>

theorem geocodeWithRetry_auth_error:
  assumes "new_effects st (snd (geocodeWithRetry env a st)) =
             pre @ EGeocode a' b (Failure e) # post"
    and "status e = Some 401 \<or> status e = Some 403 \<or>
         (\<exists>m. message e = Some m \<and> js_includes m (ascii ''Invalid key''))"
  shows "post = [] \<and>
         fst (geocodeWithRetry env a st) = Threw (ThrownError e) \<and>
         mapError (snd (geocodeWithRetry env a st)) = Some InvalidApiKey"
proof -
  let ?res = "geocodeWithRetry env a st"
  let ?new = "new_effects st (snd ?res)"
  have au: "is_auth_failure (EGeocode a' b (Failure e))"
    using assms(2) by (auto simp add: is_auth_error_def)
  have L: "(\<forall>ev \<in> set (butlast ?new). \<not> is_auth_failure ev) \<and>
     (?new \<noteq> [] \<and> is_auth_failure (last ?new) \<longrightarrow>
        (\<exists>b e. last ?new = EGeocode a b (Failure e) \<and> fst ?res = Threw (ThrownError e)) \<and>
        mapError (snd ?res) = Some InvalidApiKey)"
    unfolding geocodeWithRetry_def by (rule retry_loop_auth_failure_last)
  have p: "post = []"
  proof (rule ccontr)
    assume "post \<noteq> []"
    then have "EGeocode a' b (Failure e) \<in> set (butlast ?new)"
      using assms(1) by (simp add: butlast_append)
    then show False using L au by blast
  qed
  then have "last ?new = EGeocode a' b (Failure e)" "?new \<noteq> []"
    using assms(1) by simp_all
  then show ?thesis using L au p by auto
qed

theorem geocodeWithRetry_auth_error_witness:
  "new_effects ready_component
     (snd (geocodeWithRetry forbidden_env (ascii ''A'') ready_component)) =
     [] @ EGeocode (ascii ''A'') True (Failure forbidden) # [] \<and>
   status forbidden = Some 403 \<and>
   fst (geocodeWithRetry forbidden_env (ascii ''A'') ready_component) =
     Threw (ThrownError forbidden) \<and>
   mapError (snd (geocodeWithRetry forbidden_env (ascii ''A'') ready_component)) =
     Some InvalidApiKey"
proof -
  have h1: "new_effects ready_component
     (snd (geocodeWithRetry forbidden_env (ascii ''A'') ready_component)) =
     [] @ EGeocode (ascii ''A'') True (Failure forbidden) # []"
    by (simp add: forbidden_run new_effects_def ready_component_fields)
  have h2: "status forbidden = Some 401 \<or> status forbidden = Some 403 \<or>
         (\<exists>m. message forbidden = Some m \<and> js_includes m (ascii ''Invalid key''))"
    by (simp add: forbidden_def)
  have h3: "status forbidden = Some 403"
    by (simp add: forbidden_def)
  show ?thesis
    using geocodeWithRetry_auth_error [OF h1 h2] h1 h3 by simp
qed

section \<open>The two lookups of one attempt\<close>

lemma count_lt_Suc: "\<not> count_lt n rc \<Longrightarrow> \<not> count_le (Suc n) rc"
  by (cases rc) auto

lemma count_lt_le_Suc: "count_lt n rc \<Longrightarrow> count_le (Suc n) rc"
  by (cases rc) auto

text \<open>One try block, by the replies at its ticks.\<close>

lemma try_geocode_by_replies:
  "fst (try_geocode env a st) =
     (case provider_reply (env (clock st)) of
        Failure e \<Rightarrow> Inl e
      | Match g \<Rightarrow> Inr (Some g)
      | NoMatch \<Rightarrow>
          (case provider_reply (env (Suc (clock st))) of
             Failure e \<Rightarrow> Inl e
           | Match g \<Rightarrow> Inr (Some g)
           | NoMatch \<Rightarrow> Inr None))"
  by (simp add: try_geocode_def await_geocode_click click_fields split: reply.splits)

lemma retry_loop_round_effects:
  assumes "count_le n rc" and "\<not> searchCancelled st"
  shows "\<exists>rest. new_effects st (snd (retry_loop env a rc delays le n st)) =
                  try_effects env a (clock st) @ rest \<and>
                (rest = [] \<or> (\<exists>d. hd rest = ERetryDelay d))"
proof -
  obtain x st1 where t: "try_geocode env a st = (x, st1)"
    by (cases "try_geocode env a st")
  have n1: "new_effects st st1 = try_effects env a (clock st)"
    using t try_geocode_new[of st env a] by simp
  show ?thesis
  proof (cases x)
    case (Inr g)
    then show ?thesis using assms t n1 by (simp add: retry_loop_returns)
  next
    case (Inl e)
    show ?thesis
    proof (cases "is_auth_error e")
      case True
      then show ?thesis using assms t n1 Inl
        by (simp add: retry_loop_auth new_effects_def)
    next
      case na: False
      show ?thesis
      proof (cases "count_lt n rc")
        case True
        then show ?thesis
          using assms t Inl na new_effects_retry[OF t refl, of rc delays "ThrownError e" "Suc n"]
          by (simp add: retry_loop_retry)
      next
        case False
        then have "\<not> count_le (Suc n) rc" by (rule count_lt_Suc)
        then show ?thesis
          using assms t Inl na False n1 by (simp add: retry_loop_last retry_loop_done)
      qed
    qed
  qed
qed

text \<open>
  Claim C4. Take any round of the retry loop that is entered (the attempt number is
  within \<open>retryCount\<close> and the search is not cancelled), and let \<open>r1\<close> and \<open>r2\<close> be the
  provider's replies at the round's first two ticks. The round opens with one bounded
  lookup, answered \<open>r1\<close>. The effect after it is a global lookup if and only if \<open>r1\<close>
  is no match, and then it is the global lookup of the same address, answered \<open>r2\<close>.
  When both replies are no match the loop returns no geo object at once: its effects
  are these two lookups and nothing else.
\<close>

theorem fallback_lookup_in_attempt:
  assumes "count_le n rc" and "\<not> searchCancelled st"
  shows "let r1 = provider_reply (env (clock st));
             r2 = provider_reply (env (Suc (clock st)));
             res = retry_loop env a rc delays le n st;
             new = new_effects st (snd res)
         in new \<noteq> [] \<and> hd new = EGeocode a True r1 \<and>
            ((1 < length new \<and> is_global_lookup (new ! 1)) \<longleftrightarrow> r1 = NoMatch) \<and>
            (r1 = NoMatch \<longrightarrow> new ! 1 = EGeocode a False r2) \<and>
            (r1 = NoMatch \<and> r2 = NoMatch \<longrightarrow>
               fst res = Returned None \<and>
               new = [EGeocode a True NoMatch, EGeocode a False NoMatch])"
proof -
  let ?r1 = "provider_reply (env (clock st))"
  let ?r2 = "provider_reply (env (Suc (clock st)))"
  let ?res = "retry_loop env a rc delays le n st"
  let ?new = "new_effects st (snd ?res)"
  obtain rest where r: "?new = try_effects env a (clock st) @ rest"
    and h: "rest = [] \<or> (\<exists>d. hd rest = ERetryDelay d)"
    using retry_loop_round_effects[OF assms, of env a delays le] by blast
  have a1: "?new \<noteq> [] \<and> hd ?new = EGeocode a True ?r1"
    using r by (simp add: try_effects_def split: reply.splits)
  have a2: "(1 < length ?new \<and> is_global_lookup (?new ! 1)) \<longleftrightarrow> ?r1 = NoMatch"
  proof (cases "?r1 = NoMatch")
    case True
    then show ?thesis using r by (simp add: try_effects_def)
  next
    case False
    then have te: "try_effects env a (clock st) = [EGeocode a True ?r1]"
      by (simp add: try_effects_def split: reply.splits)
    show ?thesis
    proof (cases rest)
      case Nil
      then show ?thesis using r te False by simp
    next
      case (Cons ev rest')
      then obtain d where "ev = ERetryDelay d" using h by auto
      then show ?thesis using r te False Cons by simp
    qed
  qed
  have a3: "?r1 = NoMatch \<longrightarrow> ?new ! 1 = EGeocode a False ?r2"
    using r by (simp add: try_effects_def)
  have a4: "?r1 = NoMatch \<and> ?r2 = NoMatch \<longrightarrow>
              fst ?res = Returned None \<and>
              ?new = [EGeocode a True NoMatch, EGeocode a False NoMatch]"
  proof
    assume nm: "?r1 = NoMatch \<and> ?r2 = NoMatch"
    obtain x st1 where t: "try_geocode env a st = (x, st1)"
      by (cases "try_geocode env a st")
    have "x = Inr None"
      using t nm try_geocode_by_replies[of env a st] by simp
    then have "?res = (Returned None, st1)"
      using assms t by (simp add: retry_loop_returns)
    moreover have "new_effects st st1 = try_effects env a (clock st)"
      using t try_geocode_new[of st env a] by simp
    ultimately show "fst ?res = Returned None \<and>
              ?new = [EGeocode a True NoMatch, EGeocode a False NoMatch]"
      using nm by (simp add: try_effects_def)
  qed
  show ?thesis using a1 a2 a3 a4 by (simp add: Let_def)
qed

lemma forbidden_loop_run:
  "retry_loop forbidden_env (ascii ''A'') (Count 2) [Num 1, Num 2] ThrownNull 0 ready_component =
     (Threw (ThrownError forbidden),
      ready_component\<lparr>effects := [EGeocode (ascii ''A'') True (Failure forbidden)],
                        clock := 1, mapError := Some InvalidApiKey\<rparr>)"
  by code_simp

theorem fallback_lookup_in_attempt_witness:
  "count_le 0 (Count 2) \<and> \<not> searchCancelled ready_component \<and>
   provider_reply (quiet_env (clock ready_component)) = NoMatch \<and>
   provider_reply (quiet_env (Suc (clock ready_component))) = NoMatch \<and>
   fst (retry_loop quiet_env (ascii ''A'') (Count 2) [Num 1, Num 2] ThrownNull 0 ready_component) =
     Returned None \<and>
   new_effects ready_component
     (snd (retry_loop quiet_env (ascii ''A'') (Count 2) [Num 1, Num 2] ThrownNull 0
            ready_component)) =
     [EGeocode (ascii ''A'') True NoMatch, EGeocode (ascii ''A'') False NoMatch] \<and>
   provider_reply (forbidden_env (clock ready_component)) \<noteq> NoMatch \<and>
   length (new_effects ready_component
     (snd (retry_loop forbidden_env (ascii ''A'') (Count 2) [Num 1, Num 2] ThrownNull 0
            ready_component))) = 1"
proof -
  have c: "count_le 0 (Count 2)" by simp
  have nc: "\<not> searchCancelled ready_component" by (simp add: ready_component_fields)
  have q: "provider_reply (quiet_env (clock ready_component)) = NoMatch"
    "provider_reply (quiet_env (Suc (clock ready_component))) = NoMatch"
    by (simp_all add: quiet_env_def)
  have f: "provider_reply (forbidden_env (clock ready_component)) \<noteq> NoMatch"
    by (simp add: forbidden_env_def)
  have l: "length (new_effects ready_component
     (snd (retry_loop forbidden_env (ascii ''A'') (Count 2) [Num 1, Num 2] ThrownNull 0
            ready_component))) = 1"
    by (simp add: forbidden_loop_run new_effects_def ready_component_fields)
  show ?thesis
    using fallback_lookup_in_attempt [OF c nc, of quiet_env "ascii ''A''" "[Num 1, Num 2]" ThrownNull]
      fallback_lookup_in_attempt [OF c nc, of forbidden_env "ascii ''A''" "[Num 1, Num 2]" ThrownNull]
      c nc q f l
    by (simp add: Let_def)
qed

section \<open>The waits between the attempts\<close>

text \<open>Where the first element with a property sits in a list.\<close>

lemma first_occurrence_split:
  assumes "xs @ y # ys = pre @ z # post"
    and "\<forall>x \<in> set xs. \<not> Q x" and "Q y" and "Q z"
  shows "(pre = xs \<and> z = y \<and> post = ys) \<or> (\<exists>pre2. pre = xs @ y # pre2 \<and> ys = pre2 @ z # post)"
  using assms
proof (induction xs arbitrary: pre)
  case Nil
  then show ?case by (cases pre) auto
next
  case (Cons x xs)
  then show ?case by (cases pre) auto
qed

lemma no_element_split:
  assumes "xs = pre @ z # post" and "\<forall>x \<in> set xs. \<not> Q x" and "Q z"
  shows False
  using assms by auto

lemma try_effects_no_delay: "\<forall>ev \<in> set (try_effects env a c). \<not> is_retry_delay ev"
  by (simp add: try_effects_def split: reply.splits)

lemma try_effects_bounded: "length (filter is_bounded_lookup (try_effects env a c)) = 1"
  by (simp add: try_effects_def split: reply.splits)

lemma try_effects_hd: "is_bounded_lookup (hd (try_effects env a c))"
  by (simp add: try_effects_def split: reply.splits)

lemma retry_loop_starts_bounded:
  "new_effects st (snd (retry_loop env a rc delays le n st)) = [] \<or>
   is_bounded_lookup (hd (new_effects st (snd (retry_loop env a rc delays le n st))))"
proof (cases "count_le n rc \<and> \<not> searchCancelled st")
  case True
  then obtain rest where "new_effects st (snd (retry_loop env a rc delays le n st)) =
                  try_effects env a (clock st) @ rest"
    using retry_loop_round_effects[of n rc st env a delays le] by blast
  then show ?thesis using try_effects_hd[of env a "clock st"] try_effects_nonempty[of env a "clock st"]
    by simp
next
  case False
  then show ?thesis
    by (cases "count_le n rc") (simp_all add: retry_loop_done retry_loop_cancelled new_effects_self)
qed

lemma retry_loop_delays:
  "\<forall>pre d post. new_effects st (snd (retry_loop env a rc delays le n st)) = pre @ ERetryDelay d # post \<longrightarrow>
      1 \<le> length (filter is_bounded_lookup pre) \<and>
      count_le (n + length (filter is_bounded_lookup pre)) rc \<and>
      d = js_index delays
            (min (int (n + length (filter is_bounded_lookup pre)) - 1) (int (length delays) - 1)) \<and>
      (post = [] \<or> is_bounded_lookup (hd post))"
proof (rule retry_loop_rounds[where P = "\<lambda>le n st res.
    \<forall>pre d post. new_effects st (snd res) = pre @ ERetryDelay d # post \<longrightarrow>
      1 \<le> length (filter is_bounded_lookup pre) \<and>
      count_le (n + length (filter is_bounded_lookup pre)) rc \<and>
      d = js_index delays
            (min (int (n + length (filter is_bounded_lookup pre)) - 1) (int (length delays) - 1)) \<and>
      (post = [] \<or> is_bounded_lookup (hd post))"], goal_cases)
  case (1 le n st) then show ?case by (simp add: new_effects_self)
next
  case (2 le n st) then show ?case by (simp add: new_effects_self)
next
  case (3 le n st g st1)
  have "new_effects st st1 = try_effects env a (clock st)"
    using 3 try_geocode_new[of st env a] by simp
  then show ?case using try_effects_no_delay[of env a "clock st"]
    by (auto dest: no_element_split[where Q = is_retry_delay])
next
  case (4 le n st e st1)
  have "new_effects st (st1\<lparr>mapError := Some InvalidApiKey\<rparr>) = try_effects env a (clock st)"
    using 4 try_geocode_new[of st env a] by (simp add: new_effects_def)
  then show ?case using try_effects_no_delay[of env a "clock st"]
    by (auto dest: no_element_split[where Q = is_retry_delay])
next
  case (5 le n st e st1 st2)
  let ?r = "retry_loop env a rc delays (ThrownError e) (Suc n) st2"
  let ?d0 = "js_index delays (min (int n) (int (length delays) - 1))"
  let ?T = "try_effects env a (clock st)"
  have ne: "new_effects st (snd ?r) = ?T @ ERetryDelay ?d0 # new_effects st2 (snd ?r)"
    using new_effects_retry[OF 5(3) 5(6)] .
  show ?case
  proof (intro allI impI)
    fix pre d post
    assume s: "new_effects st (snd ?r) = pre @ ERetryDelay d # post"
    have "?T @ ERetryDelay ?d0 # new_effects st2 (snd ?r) = pre @ ERetryDelay d # post"
      using ne s by simp
    from first_occurrence_split[OF this try_effects_no_delay]
    consider (here) "pre = ?T" "ERetryDelay d = ERetryDelay ?d0" "post = new_effects st2 (snd ?r)"
      | (later) pre2 where "pre = ?T @ ERetryDelay ?d0 # pre2"
          "new_effects st2 (snd ?r) = pre2 @ ERetryDelay d # post"
      by auto
    then show "1 \<le> length (filter is_bounded_lookup pre) \<and>
      count_le (n + length (filter is_bounded_lookup pre)) rc \<and>
      d = js_index delays
            (min (int (n + length (filter is_bounded_lookup pre)) - 1) (int (length delays) - 1)) \<and>
      (post = [] \<or> is_bounded_lookup (hd post))"
    proof cases
      case here
      then show ?thesis
        using try_effects_bounded[of env a "clock st"] count_lt_le_Suc[OF 5(5)]
          retry_loop_starts_bounded[of st2 env a rc delays "ThrownError e" "Suc n"]
        by simp
    next
      case later
      then show ?thesis
        using try_effects_bounded[of env a "clock st"] 5(7)
        by (auto simp add: algebra_simps)
    qed
  qed
next
  case (6 le n st e st1)
  have "\<not> count_le (Suc n) rc" using 6(5) by (rule count_lt_Suc)
  then have "new_effects st (snd (retry_loop env a rc delays (ThrownError e) (Suc n) st1)) =
      try_effects env a (clock st)"
    using 6 try_geocode_new[of st env a] by (simp add: retry_loop_done)
  then show ?case using try_effects_no_delay[of env a "clock st"]
    by (auto dest: no_element_split[where Q = is_retry_delay])
qed


lemma js_index_nth:
  assumes "delays \<noteq> []" and "0 < k"
  shows "js_index delays (min (int k - 1) (int (length delays) - 1)) =
           delays ! min (k - 1) (length delays - 1)"
proof -
  have "nat (min (int k - 1) (int (length delays) - 1)) = min (k - 1) (length delays - 1)"
    using assms by (cases delays) (auto simp add: min_def)
  moreover have "0 \<le> min (int k - 1) (int (length delays) - 1)"
    using assms by (cases delays) auto
  moreover have "min (int k - 1) (int (length delays) - 1) < int (length delays)"
    using assms by (cases delays) auto
  ultimately show ?thesis by (simp add: js_index_def)
qed


text \<open>Where an element with a property sits when only the head of a prefix can have it.\<close>

lemma split_past_prefix:
  assumes "ps @ rest = pre @ z # post" and "Q z" and "\<forall>x \<in> set (tl ps). \<not> Q x"
    and "ps \<noteq> []"
  shows "pre = [] \<or> (\<exists>pre2. pre = ps @ pre2 \<and> rest = pre2 @ z # post)"
proof -
  from assms(1) obtain us where
    "(ps = pre @ us \<and> us @ rest = z # post) \<or> (ps @ us = pre \<and> rest = us @ z # post)"
    by (auto simp add: append_eq_append_conv2)
  then show ?thesis
  proof
    assume a: "ps = pre @ us \<and> us @ rest = z # post"
    show ?thesis
    proof (cases us)
      case Nil
      then show ?thesis using a by simp
    next
      case (Cons u us')
      then have "u = z" using a by simp
      show ?thesis
      proof (cases pre)
        case Nil
        then show ?thesis by simp
      next
        case (Cons p pre')
        then have "z \<in> set (tl ps)" using a \<open>us = u # us'\<close> \<open>u = z\<close> by simp
        then show ?thesis using assms(2,3) by blast
      qed
    qed
  next
    assume "ps @ us = pre \<and> rest = us @ z # post"
    then show ?thesis by blast
  qed
qed

lemma try_effects_tl: "\<forall>x \<in> set (tl (try_effects env a c)). \<not> is_bounded_lookup x"
  by (simp add: try_effects_def split: reply.splits)

lemma try_effects_split:
  assumes "try_effects env a c = pre @ z # post" and "is_bounded_lookup z"
  shows "pre = []"
proof (cases pre)
  case Nil
  then show ?thesis .
next
  case (Cons p pre')
  then have "z \<in> set (tl (try_effects env a c))" using assms(1) by simp
  then show ?thesis using assms(2) try_effects_tl[of env a c] by blast
qed

lemma try_effects_first_attempt:
  assumes "xs = try_effects env a c"
  shows "\<forall>pre a' r post.
           xs = pre @ EGeocode a' True r # post \<and> 0 < length (filter is_bounded_lookup pre) \<longrightarrow>
           pre \<noteq> [] \<and> last pre = ERetryDelay (f pre)"
proof (intro allI impI)
  fix pre a' r post
  assume s: "xs = pre @ EGeocode a' True r # post \<and> 0 < length (filter is_bounded_lookup pre)"
  then have "pre = []"
    using try_effects_split[of env a c pre "EGeocode a' True r" post] assms by simp
  then show "pre \<noteq> [] \<and> last pre = ERetryDelay (f pre)" using s by simp
qed

text \<open>
  Every attempt of the retry loop but the one it starts with begins right after the
  timer of the attempt before it.
\<close>

lemma retry_loop_waits:
  "\<forall>pre a' r post.
      new_effects st (snd (retry_loop env a rc delays le n st)) = pre @ EGeocode a' True r # post \<and>
      0 < length (filter is_bounded_lookup pre) \<longrightarrow>
      pre \<noteq> [] \<and>
      last pre = ERetryDelay (js_index delays
        (min (int (n + length (filter is_bounded_lookup pre)) - 1) (int (length delays) - 1)))"
proof (rule retry_loop_rounds[where P = "\<lambda>le n st res.
    \<forall>pre a' r post.
      new_effects st (snd res) = pre @ EGeocode a' True r # post \<and>
      0 < length (filter is_bounded_lookup pre) \<longrightarrow>
      pre \<noteq> [] \<and>
      last pre = ERetryDelay (js_index delays
        (min (int (n + length (filter is_bounded_lookup pre)) - 1) (int (length delays) - 1)))"],
    goal_cases)
  case (1 le n st) then show ?case by (simp add: new_effects_self)
next
  case (2 le n st) then show ?case by (simp add: new_effects_self)
next
  case (3 le n st g st1)
  have e: "new_effects st (snd (Returned g, st1)) = try_effects env a (clock st)"
    using 3 try_geocode_new[of st env a] by simp
  show ?case by (rule try_effects_first_attempt[OF e])
next
  case (4 le n st e st1)
  have e: "new_effects st (snd (Threw (ThrownError e), st1\<lparr>mapError := Some InvalidApiKey\<rparr>)) =
           try_effects env a (clock st)"
    using 4 try_geocode_new[of st env a] by (simp add: new_effects_def)
  show ?case by (rule try_effects_first_attempt[OF e])
next
  case (5 le n st e st1 st2)
  let ?r = "retry_loop env a rc delays (ThrownError e) (Suc n) st2"
  let ?d0 = "js_index delays (min (int n) (int (length delays) - 1))"
  let ?T = "try_effects env a (clock st)"
  have ne: "new_effects st (snd ?r) = ?T @ ERetryDelay ?d0 # new_effects st2 (snd ?r)"
    using new_effects_retry[OF 5(3) 5(6)] .
  have tl: "\<forall>x \<in> set (tl (?T @ [ERetryDelay ?d0])). \<not> is_bounded_lookup x"
    using try_effects_tl[of env a "clock st"] try_effects_nonempty[of env a "clock st"]
    by auto
  show ?case
  proof (intro allI impI)
    fix pre a' r post
    assume s: "new_effects st (snd ?r) = pre @ EGeocode a' True r # post \<and>
               0 < length (filter is_bounded_lookup pre)"
    then have "(?T @ [ERetryDelay ?d0]) @ new_effects st2 (snd ?r) =
                 pre @ EGeocode a' True r # post"
      using ne by simp
    from split_past_prefix[OF this _ tl] s
    obtain pre2 where p: "pre = (?T @ [ERetryDelay ?d0]) @ pre2"
      "new_effects st2 (snd ?r) = pre2 @ EGeocode a' True r # post"
      by auto
    have k: "length (filter is_bounded_lookup pre) =
               Suc (length (filter is_bounded_lookup pre2))"
      using p(1) try_effects_bounded[of env a "clock st"] by simp
    show "pre \<noteq> [] \<and>
      last pre = ERetryDelay (js_index delays
        (min (int (n + length (filter is_bounded_lookup pre)) - 1) (int (length delays) - 1)))"
    proof (cases "filter is_bounded_lookup pre2 = []")
      case True
      have "pre2 = []"
      proof (rule ccontr)
        assume "pre2 \<noteq> []"
        then have "hd (new_effects st2 (snd ?r)) = hd pre2" "hd pre2 \<in> set pre2"
          using p(2) by simp_all
        moreover have "is_bounded_lookup (hd (new_effects st2 (snd ?r)))"
          using retry_loop_starts_bounded[of st2 env a rc delays "ThrownError e" "Suc n"] p(2)
          by auto
        ultimately have "hd pre2 \<in> set (filter is_bounded_lookup pre2)" by simp
        then show False using True by simp
      qed
      then show ?thesis using p(1) k by simp
    next
      case False
      then have "0 < length (filter is_bounded_lookup pre2)" by simp
      then have "pre2 \<noteq> [] \<and>
        last pre2 = ERetryDelay (js_index delays
          (min (int (Suc n + length (filter is_bounded_lookup pre2)) - 1)
               (int (length delays) - 1)))"
        using 5(7) p(2) by blast
      then show ?thesis using p(1) k by simp
    qed
  qed
next
  case (6 le n st e st1)
  have "\<not> count_le (Suc n) rc" using 6(5) by (rule count_lt_Suc)
  then have e: "new_effects st (snd (retry_loop env a rc delays (ThrownError e) (Suc n) st1)) =
      try_effects env a (clock st)"
    using 6 try_geocode_new[of st env a] by (simp add: retry_loop_done)
  show ?case by (rule try_effects_first_attempt[OF e])
qed

text \<open>
  Claim C8. Let the delays of the settings be non-empty and take the effects of any run
  of \<open>geocodeWithRetry\<close>. An attempt begins with its bounded lookup, so the bounded
  lookup with \<open>k\<close> bounded lookups before it is that of attempt \<open>k\<close>, counted from \<open>0\<close>.
  For every attempt \<open>k > 0\<close> of the run, the effect right before its bounded lookup is
  the retry timer of \<open>retryDelays[min(k - 1, length - 1)]\<close> seconds. Conversely every
  retry timer of the run stands before such an attempt: with \<open>k\<close> the number of attempts
  begun before it, \<open>k > 0\<close>, it runs for \<open>retryDelays[min(k - 1, length - 1)]\<close> seconds,
  what follows it, if anything, is the bounded lookup of attempt \<open>k\<close>, and
  \<open>k \<le> retryCount\<close>: attempt \<open>k\<close> is one the loop allows, so no timer follows the final
  attempt, the one numbered \<open>retryCount\<close>.
\<close>

theorem retry_delay_before_attempt:
  assumes "retryDelays (settings st) \<noteq> []"
  shows "(\<forall>pre a' r post.
            new_effects st (snd (geocodeWithRetry env a st)) = pre @ EGeocode a' True r # post \<and>
            0 < length (filter is_bounded_lookup pre) \<longrightarrow>
            pre \<noteq> [] \<and>
            last pre = ERetryDelay (retryDelays (settings st) !
                         min (length (filter is_bounded_lookup pre) - 1)
                             (length (retryDelays (settings st)) - 1))) \<and>
         (\<forall>pre d post.
            new_effects st (snd (geocodeWithRetry env a st)) = pre @ ERetryDelay d # post \<longrightarrow>
            0 < length (filter is_bounded_lookup pre) \<and>
            count_le (length (filter is_bounded_lookup pre)) (retryCount (settings st)) \<and>
            d = retryDelays (settings st) !
                  min (length (filter is_bounded_lookup pre) - 1)
                      (length (retryDelays (settings st)) - 1) \<and>
            (post = [] \<or> is_bounded_lookup (hd post)))"
proof (intro conjI allI impI)
  fix pre a' r post
  let ?k = "length (filter is_bounded_lookup pre)"
  assume s: "new_effects st (snd (geocodeWithRetry env a st)) = pre @ EGeocode a' True r # post \<and>
             0 < ?k"
  then have L: "pre \<noteq> [] \<and>
      last pre = ERetryDelay (js_index (retryDelays (settings st))
        (min (int (0 + ?k) - 1) (int (length (retryDelays (settings st))) - 1)))"
    using retry_loop_waits[of st env a "retryCount (settings st)"
        "retryDelays (settings st)" ThrownNull 0]
    unfolding geocodeWithRetry_def by blast
  from s have k: "0 < ?k" by blast
  show "pre \<noteq> []" using L by blast
  show "last pre = ERetryDelay (retryDelays (settings st) !
          min (?k - 1) (length (retryDelays (settings st)) - 1))"
    using L js_index_nth[OF assms k] by simp
next
  fix pre d post
  let ?k = "length (filter is_bounded_lookup pre)"
  assume s: "new_effects st (snd (geocodeWithRetry env a st)) = pre @ ERetryDelay d # post"
  have L: "1 \<le> ?k \<and> count_le (0 + ?k) (retryCount (settings st)) \<and>
      d = js_index (retryDelays (settings st))
            (min (int (0 + ?k) - 1) (int (length (retryDelays (settings st))) - 1)) \<and>
      (post = [] \<or> is_bounded_lookup (hd post))"
    using s retry_loop_delays[of st env a "retryCount (settings st)"
        "retryDelays (settings st)" ThrownNull 0]
    unfolding geocodeWithRetry_def by blast
  from L have "1 \<le> ?k" by blast
  then show k: "0 < ?k" by linarith
  show "d = retryDelays (settings st) ! min (?k - 1) (length (retryDelays (settings st)) - 1)"
    using L js_index_nth[OF assms k] by simp
  show "count_le ?k (retryCount (settings st))" using L by simp
  show "post = [] \<or> is_bounded_lookup (hd post)" using L by blast
qed

lemma failing_run:
  "geocodeWithRetry failing_env (ascii ''A'') ready_component =
     (Threw (ThrownError transient),
      ready_component\<lparr>effects :=
         [EGeocode (ascii ''A'') True (Failure transient), ERetryDelay (Num 1),
          EGeocode (ascii ''A'') True (Failure transient), ERetryDelay (Num 2),
          EGeocode (ascii ''A'') True (Failure transient)],
         clock := 5\<rparr>)"
  by code_simp

theorem retry_delay_before_attempt_witness:
  "retryDelays (settings ready_component) \<noteq> [] \<and>
   new_effects ready_component
     (snd (geocodeWithRetry failing_env (ascii ''A'') ready_component)) =
     [EGeocode (ascii ''A'') True (Failure transient), ERetryDelay (Num 1),
      EGeocode (ascii ''A'') True (Failure transient), ERetryDelay (Num 2)] @
     EGeocode (ascii ''A'') True (Failure transient) # [] \<and>
   0 < length (filter is_bounded_lookup
         [EGeocode (ascii ''A'') True (Failure transient), ERetryDelay (Num 1),
          EGeocode (ascii ''A'') True (Failure transient), ERetryDelay (Num 2)]) \<and>
   last [EGeocode (ascii ''A'') True (Failure transient), ERetryDelay (Num 1),
         EGeocode (ascii ''A'') True (Failure transient), ERetryDelay (Num 2)] =
     ERetryDelay (retryDelays (settings ready_component) ! min (2 - 1) (2 - 1)) \<and>
   new_effects ready_component
     (snd (geocodeWithRetry failing_env (ascii ''A'') ready_component)) =
     [EGeocode (ascii ''A'') True (Failure transient)] @
     ERetryDelay (Num 1) #
     [EGeocode (ascii ''A'') True (Failure transient), ERetryDelay (Num 2),
      EGeocode (ascii ''A'') True (Failure transient)] \<and>
   Num 1 = retryDelays (settings ready_component) ! min (1 - 1) (2 - 1) \<and>
   count_le 1 (retryCount (settings ready_component))"
proof -
  let ?A = "EGeocode (ascii ''A'') True (Failure transient)"
  have h1: "retryDelays (settings ready_component) \<noteq> []"
    by (simp add: ready_component_fields)
  have h2: "new_effects ready_component
     (snd (geocodeWithRetry failing_env (ascii ''A'') ready_component)) =
     [?A, ERetryDelay (Num 1), ?A, ERetryDelay (Num 2)] @ ?A # []"
    by (simp add: failing_run new_effects_def ready_component_fields)
  have h3: "0 < length (filter is_bounded_lookup [?A, ERetryDelay (Num 1), ?A, ERetryDelay (Num 2)])"
    by simp
  have h4: "new_effects ready_component
     (snd (geocodeWithRetry failing_env (ascii ''A'') ready_component)) =
     [?A] @ ERetryDelay (Num 1) # [?A, ERetryDelay (Num 2), ?A]"
    by (simp add: failing_run new_effects_def ready_component_fields)
  note T = retry_delay_before_attempt [OF h1, of failing_env "ascii ''A''"]
  have w1: "last [?A, ERetryDelay (Num 1), ?A, ERetryDelay (Num 2)] =
     ERetryDelay (retryDelays (settings ready_component) ! min (2 - 1) (2 - 1))"
    using T [THEN conjunct1, rule_format,
        of "[?A, ERetryDelay (Num 1), ?A, ERetryDelay (Num 2)]" "ascii ''A''"
           "Failure transient" "[]"] h2 h3
    by (simp add: ready_component_fields)
  have w2: "Num 1 = retryDelays (settings ready_component) ! min (1 - 1) (2 - 1) \<and>
            count_le 1 (retryCount (settings ready_component))"
    using T [THEN conjunct2, rule_format, of "[?A]" "Num 1" "[?A, ERetryDelay (Num 2), ?A]"] h4
    by (simp add: ready_component_fields)
  show ?thesis using h1 h2 h3 h4 w1 w2 by blast
qed

section \<open>A provider that always fails\<close>

lemma await_geocode_quiet:
  "\<not> stop_clicked (env (clock st)) \<Longrightarrow>
   await_geocode env a b st =
     (provider_reply (env (clock st)),
      st\<lparr>effects := effects st @ [EGeocode a b (provider_reply (env (clock st)))],
         clock := Suc (clock st)\<rparr>)"
  by (simp add: await_geocode_def click_while_suspended_def Let_def)

lemma await_timeout_quiet:
  "\<not> stop_clicked (env (clock st)) \<Longrightarrow>
   await_timeout env tm st = st\<lparr>effects := effects st @ [tm], clock := Suc (clock st)\<rparr>"
  by (simp add: await_timeout_def click_while_suspended_def Let_def)

lemma failing_rounds_0:
  "failing_rounds a delays errs n c 0 = [EGeocode a True (Failure (errs c))]"
  by (simp add: failing_rounds_def)

lemma failing_rounds_Suc:
  "failing_rounds a delays errs n c (Suc m) =
     EGeocode a True (Failure (errs c)) #
     ERetryDelay (js_index delays (min (int n) (int (length delays) - 1))) #
     failing_rounds a delays errs (Suc n) (c + 2) m"
proof -
  have "[0..<Suc (Suc m)] = 0 # [Suc 0..<Suc (Suc m)]"
    by (rule upt_conv_Cons) simp
  also have "[Suc 0..<Suc (Suc m)] = map Suc [0..<Suc m]"
    by (rule map_Suc_upt[symmetric])
  finally have "[0..<Suc (Suc m)] = 0 # map Suc [0..<Suc m]" .
  then show ?thesis
    unfolding failing_rounds_def
    by (simp add: comp_def ac_simps del: upt_Suc cong: if_cong)
qed

lemma failing_loop:
  assumes "\<forall>t. env t = \<lparr>provider_reply = Failure (errs t), stop_clicked = False\<rparr>"
    and "\<forall>t. \<not> is_auth_error (errs t)"
    and "\<not> searchCancelled st"
  shows "retry_loop env a (Count (int n + int m)) delays le n st =
     (Threw (ThrownError (errs (clock st + 2 * m))),
      st\<lparr>effects := effects st @ failing_rounds a delays errs n (clock st) m,
         clock := clock st + 2 * m + 1\<rparr>)"
  using assms(3)
proof (induction m arbitrary: n st le)
  case 0
  let ?st1 = "st\<lparr>effects := effects st @ [EGeocode a True (Failure (errs (clock st)))],
                 clock := Suc (clock st)\<rparr>"
  have t: "try_geocode env a st = (Inl (errs (clock st)), ?st1)"
    using assms(1) by (simp add: try_geocode_def await_geocode_quiet)
  have "retry_loop env a (Count (int n)) delays le n st =
          retry_loop env a (Count (int n)) delays (ThrownError (errs (clock st))) (Suc n) ?st1"
    using 0 assms(2) by (intro retry_loop_last[OF _ _ t]) auto
  also have "\<dots> = (Threw (ThrownError (errs (clock st))), ?st1)"
    by (rule retry_loop_done) simp
  finally show ?case by (simp add: failing_rounds_0)
next
  case (Suc m)
  let ?st1 = "st\<lparr>effects := effects st @ [EGeocode a True (Failure (errs (clock st)))],
                 clock := Suc (clock st)\<rparr>"
  let ?tm = "ERetryDelay (js_index delays (min (int n) (int (length delays) - 1)))"
  let ?st2 = "st\<lparr>effects := effects st @ [EGeocode a True (Failure (errs (clock st))), ?tm],
                 clock := clock st + 2\<rparr>"
  let ?rc = "Count (int n + int (Suc m))"
  have t: "try_geocode env a st = (Inl (errs (clock st)), ?st1)"
    using assms(1) by (simp add: try_geocode_def await_geocode_quiet)
  have w: "await_timeout env ?tm ?st1 = ?st2"
    using assms(1) by (simp add: await_timeout_quiet)
  have rc: "?rc = Count (int (Suc n) + int m)" by simp
  have nc: "\<not> searchCancelled ?st2" using Suc.prems by simp
  have "retry_loop env a ?rc delays le n st =
          retry_loop env a ?rc delays (ThrownError (errs (clock st))) (Suc n)
            (await_timeout env ?tm ?st1)"
    using Suc.prems assms(2) by (intro retry_loop_retry[OF _ _ t]) auto
  also have "\<dots> = retry_loop env a (Count (int (Suc n) + int m)) delays
                      (ThrownError (errs (clock st))) (Suc n) ?st2"
    by (simp only: w rc)
  also have "\<dots> = (Threw (ThrownError (errs (clock ?st2 + 2 * m))),
      ?st2\<lparr>effects := effects ?st2 @ failing_rounds a delays errs (Suc n) (clock ?st2) m,
           clock := clock ?st2 + 2 * m + 1\<rparr>)"
    by (rule Suc.IH[OF nc])
  finally show ?case by (simp add: failing_rounds_Suc)
qed


lemma failing_rounds_lookups:
  "length (filter is_lookup (failing_rounds a delays errs n c m)) = Suc m \<and>
   filter is_global_lookup (failing_rounds a delays errs n c m) = [] \<and>
   last (failing_rounds a delays errs n c m) = EGeocode a True (Failure (errs (c + 2 * m)))"
proof (induction m arbitrary: n c)
  case 0
  then show ?case by (simp add: failing_rounds_0)
next
  case (Suc m)
  have "failing_rounds a delays errs (Suc n) (c + 2) m \<noteq> []"
    by (cases m) (simp_all add: failing_rounds_0 failing_rounds_Suc)
  then show ?case using Suc.IH[of "Suc n" "c + 2"] by (simp add: failing_rounds_Suc)
qed

text \<open>
  Claim C1. Let \<open>retryCount = k - 1\<close> with \<open>k \<ge> 1\<close>, so that the loop
  \<open>attempt = 0, ..., retryCount\<close> allows \<open>k\<close> attempts, let the search not be cancelled and
  nobody click during the run, and let the provider reject every call with an error
  that is not one of the API key. Then \<open>geocodeWithRetry\<close>, for any address, makes
  exactly \<open>k\<close> provider calls, all of them bounded lookups (a global lookup follows only
  an empty result, and there is none), with the retry timers between them, and then
  throws the error of the last call; nothing else of the component changes.
\<close>

theorem geocodeWithRetry_exhausts_attempts:
  assumes "0 < k"
    and "retryCount (settings st) = Count (int k - 1)"
    and "\<not> searchCancelled st"
    and "\<forall>t. env t = \<lparr>provider_reply = Failure (errs t), stop_clicked = False\<rparr>"
    and "\<forall>t. \<not> is_auth_error (errs t)"
  shows "geocodeWithRetry env a st =
           (Threw (ThrownError (errs (clock st + 2 * (k - 1)))),
            st\<lparr>effects := effects st @
                   failing_rounds a (retryDelays (settings st)) errs 0 (clock st) (k - 1),
               clock := clock st + 2 * k - 1\<rparr>) \<and>
         length (filter is_lookup (new_effects st (snd (geocodeWithRetry env a st)))) = k \<and>
         filter is_global_lookup (new_effects st (snd (geocodeWithRetry env a st))) = [] \<and>
         last (new_effects st (snd (geocodeWithRetry env a st))) =
           EGeocode a True (Failure (errs (clock st + 2 * (k - 1))))"
proof -
  let ?F = "failing_rounds a (retryDelays (settings st)) errs 0 (clock st) (k - 1)"
  have rc: "retryCount (settings st) = Count (int 0 + int (k - 1))"
    using assms(1,2) by (simp add: of_nat_diff)
  have run: "geocodeWithRetry env a st =
           (Threw (ThrownError (errs (clock st + 2 * (k - 1)))),
            st\<lparr>effects := effects st @ ?F, clock := clock st + 2 * (k - 1) + 1\<rparr>)"
    unfolding geocodeWithRetry_def rc
    by (rule failing_loop[OF assms(4,5,3)])
  have c: "clock st + 2 * (k - 1) + 1 = clock st + 2 * k - 1"
    using assms(1) by simp
  have new: "new_effects st (snd (geocodeWithRetry env a st)) = ?F"
    using run by (simp add: new_effects_def)
  have k: "Suc (k - 1) = k" using assms(1) by simp
  show ?thesis
    using run new k
      failing_rounds_lookups[of a "retryDelays (settings st)" errs 0 "clock st" "k - 1"]
    by (simp only: c)
qed

theorem geocodeWithRetry_exhausts_attempts_witness:
  "(0::nat) < 3 \<and>
   retryCount (settings ready_component) = Count (int 3 - 1) \<and>
   \<not> searchCancelled ready_component \<and>
   (\<forall>t. failing_env t = \<lparr>provider_reply = Failure transient, stop_clicked = False\<rparr>) \<and>
   \<not> is_auth_error transient \<and>
   fst (geocodeWithRetry failing_env (ascii ''A'') ready_component) =
     Threw (ThrownError transient) \<and>
   length (filter is_lookup (new_effects ready_component
     (snd (geocodeWithRetry failing_env (ascii ''A'') ready_component)))) = 3"
proof -
  have h1: "(0::nat) < 3" by simp
  have h2: "retryCount (settings ready_component) = Count (int 3 - 1)"
    by (simp add: ready_component_fields)
  have h3: "\<not> searchCancelled ready_component"
    by (simp add: ready_component_fields)
  have h4: "\<forall>t. failing_env t =
              \<lparr>provider_reply = Failure ((\<lambda>t. transient) t), stop_clicked = False\<rparr>"
    by (simp add: failing_env_def)
  have h5: "\<forall>t. \<not> is_auth_error ((\<lambda>t. transient) t)"
    by (simp add: is_auth_error_def transient_def)
  have h4': "\<forall>t. failing_env t = \<lparr>provider_reply = Failure transient, stop_clicked = False\<rparr>"
    by (simp add: failing_env_def)
  have h5': "\<not> is_auth_error transient"
    by (simp add: is_auth_error_def transient_def)
  note run = geocodeWithRetry_exhausts_attempts [OF h1 h2 h3 h4 h5, of "ascii ''A''"]
  have r1: "fst (geocodeWithRetry failing_env (ascii ''A'') ready_component) =
     Threw (ThrownError transient)"
    using run [THEN conjunct1] by simp
  have r2: "length (filter is_lookup (new_effects ready_component
     (snd (geocodeWithRetry failing_env (ascii ''A'') ready_component)))) = 3"
    using run [THEN conjunct2, THEN conjunct1] .
  show ?thesis
    using r1 r2 h1 h2 h3 h4' h5' by blast
qed

section \<open>The loop over the addresses\<close>



lemma start_run_no_results:
  "count_le 0 (retryCount (settings st)) \<Longrightarrow> no_results st \<Longrightarrow> no_results (start_run st)"
  by (auto simp add: start_run_def call_startSearch_def begin_search_def next_job_def
      next_attempt_def catch_job_def end_run_def stopSearch_def Let_def no_results_def
      split: prod.splits if_splits)

lemma click_no_results:
  "count_le 0 (retryCount (settings st)) \<Longrightarrow> no_results st \<Longrightarrow>
   no_results (click_while_suspended t st)"
  by (simp add: click_while_suspended_def toggleSearch_def start_run_no_results)
     (simp add: stopSearch_def no_results_def)

lemma search_states_stop:
  "\<not> (i < length addresses \<and> \<not> searchCancelled st) \<Longrightarrow>
   search_states env addresses i st = [st]"
  by (subst search_states.simps) auto

lemma search_states_break:
  "i < length addresses \<Longrightarrow> \<not> searchCancelled st \<Longrightarrow>
   search_step env addresses i st = (True, st') \<Longrightarrow>
   search_states env addresses i st = [st, st']"
  by (subst search_states.simps) simp

lemma search_states_next:
  "i < length addresses \<Longrightarrow> \<not> searchCancelled st \<Longrightarrow>
   search_step env addresses i st = (False, st') \<Longrightarrow>
   search_states env addresses i st = st # search_states env addresses (Suc i) st'"
  by (subst search_states.simps) simp

lemma search_states_rounds:
  assumes stop: "\<And>i st. \<not> (i < length addresses \<and> \<not> searchCancelled st) \<Longrightarrow> P i st [st]"
    and break: "\<And>i st st'. i < length addresses \<Longrightarrow> \<not> searchCancelled st \<Longrightarrow>
           search_step env addresses i st = (True, st') \<Longrightarrow> P i st [st, st']"
    and continue: "\<And>i st st'. i < length addresses \<Longrightarrow> \<not> searchCancelled st \<Longrightarrow>
           search_step env addresses i st = (False, st') \<Longrightarrow>
           P (Suc i) st' (search_states env addresses (Suc i) st') \<Longrightarrow>
           P i st (st # search_states env addresses (Suc i) st')"
  shows "P i st (search_states env addresses i st)"
  using assms
proof (induction env addresses i st rule: search_states.induct)
  case (1 env addresses i st)
  show ?case
  proof (cases "i < length addresses \<and> \<not> searchCancelled st")
    case False
    then show ?thesis using "1.prems"(1) by (simp add: search_states_stop)
  next
    case True
    obtain brk st' where s: "search_step env addresses i st = (brk, st')"
      by (cases "search_step env addresses i st")
    show ?thesis
    proof (cases brk)
      case True
      then show ?thesis using \<open>i < length addresses \<and> \<not> searchCancelled st\<close> s "1.prems"(2)
        by (simp add: search_states_break)
    next
      case False
      have "P (Suc i) st' (search_states env addresses (Suc i) st')"
        using "1.IH"[OF True s[symmetric]] False "1.prems" by simp
      then show ?thesis using True s False "1.prems"(3)
        by (simp add: search_states_next)
    qed
  qed
qed






lemma await_timeout_no_results:
  assumes "count_le 0 (retryCount (settings st))" and "no_results st"
  shows "no_results (await_timeout env tm st)"
proof -
  have "no_results (st\<lparr>effects := effects st @ [tm], clock := Suc (clock st)\<rparr>)"
    using assms(2) by (simp add: no_results_def)
  moreover have "count_le 0 (retryCount (settings
                   (st\<lparr>effects := effects st @ [tm], clock := Suc (clock st)\<rparr>)))"
    using assms(1) by simp
  ultimately show ?thesis unfolding await_timeout_click by (intro click_no_results)
qed

lemma await_geocode_no_results:
  assumes "count_le 0 (retryCount (settings st))" and "no_results st"
  shows "no_results (snd (await_geocode env a b st))"
proof -
  have "no_results (st\<lparr>effects := effects st @ [EGeocode a b (provider_reply (env (clock st)))],
                       clock := Suc (clock st)\<rparr>)"
    using assms(2) by (simp add: no_results_def)
  moreover have "count_le 0 (retryCount (settings
      (st\<lparr>effects := effects st @ [EGeocode a b (provider_reply (env (clock st)))],
          clock := Suc (clock st)\<rparr>)))"
    using assms(1) by simp
  ultimately show ?thesis unfolding await_geocode_click snd_conv by (intro click_no_results)
qed

lemma try_geocode_no_results:
  assumes "count_le 0 (retryCount (settings st))" and "no_results st"
  shows "no_results (snd (try_geocode env a st))"
proof -
  let ?s1 = "snd (await_geocode env a True st)"
  have n1: "no_results ?s1" using assms by (rule await_geocode_no_results)
  have "settings ?s1 = settings st"
    using await_geocode_fields(5)[of st env a True] by (simp add: search_frame_def)
  then have "count_le 0 (retryCount (settings ?s1))" using assms(1) by simp
  then have "no_results (snd (await_geocode env a False ?s1))"
    using n1 by (rule await_geocode_no_results)
  then show ?thesis
    using n1 by (auto simp add: try_geocode_def split: reply.splits prod.splits)
qed

lemma retry_loop_no_results:
  "count_le 0 (retryCount (settings st)) \<and> no_results st \<longrightarrow>
   no_results (snd (retry_loop env a rc delays le n st))"
proof (rule retry_loop_rounds[where P = "\<lambda>le n st res.
         count_le 0 (retryCount (settings st)) \<and> no_results st \<longrightarrow> no_results (snd res)"],
       goal_cases)
  case (1 le n st) then show ?case by simp
next
  case (2 le n st) then show ?case by simp
next
  case (3 le n st g st1)
  then show ?case using try_geocode_no_results[of st env a] by simp
next
  case (4 le n st e st1)
  then show ?case using try_geocode_no_results[of st env a] by (simp add: no_results_def)
next
  case (5 le n st e st1 st2)
  show ?case
  proof
    assume a: "count_le 0 (retryCount (settings st)) \<and> no_results st"
    have s1: "settings st1 = settings st"
      using try_geocode_frame[of st env a] 5(3) by (simp add: search_frame_def)
    have n1: "no_results st1" using a try_geocode_no_results[of st env a] 5(3) by simp
    have "settings st2 = settings st1"
      using await_timeout_fields(4)[of st1 env] 5(6) by (simp add: search_frame_def)
    moreover have "no_results st2"
      using a s1 n1 5(6) by (simp add: await_timeout_no_results)
    ultimately show "no_results (snd (retry_loop env a rc delays (ThrownError e) (Suc n) st2))"
      using 5(7) a s1 by simp
  qed
next
  case (6 le n st e st1)
  show ?case
  proof
    assume a: "count_le 0 (retryCount (settings st)) \<and> no_results st"
    have s1: "settings st1 = settings st"
      using try_geocode_frame[of st env a] 6(3) by (simp add: search_frame_def)
    have n1: "no_results st1" using a try_geocode_no_results[of st env a] 6(3) by simp
    show "no_results (snd (retry_loop env a rc delays (ThrownError e) (Suc n) st1))"
      using 6(6) a s1 n1 by simp
  qed
qed


text \<open>The four ways through one round of the search loop.\<close>

lemma search_step_cases:
  assumes "search_step env addresses i st = (brk, st')"
  obtains
    (found) g st1 where "geocodeWithRetry env (addresses ! i) st = (Returned (Some g), st1)"
      "\<not> brk"
      "st' = await_timeout env (EPause GEOCODE_DELAY_MS)
               ((addPlacemark (coordinates g) (i + 1) (addresses ! i) (addressLine g) st1)
                  \<lparr>foundAddressesCount := foundAddressesCount st1 + 1\<rparr>)"
  | (not_found) st1 where "geocodeWithRetry env (addresses ! i) st = (Returned None, st1)"
      "\<not> brk"
      "st' = await_timeout env (EPause GEOCODE_DELAY_MS)
               (st1\<lparr>notFoundAddresses := notFoundAddresses st1 @ [addresses ! i]\<rparr>)"
  | (failed) err st1 where "geocodeWithRetry env (addresses ! i) st = (Threw err, st1)"
      "mapError st1 = None" "\<not> brk"
      "st' = await_timeout env (EPause GEOCODE_DELAY_MS)
               (st1\<lparr>notFoundAddresses := notFoundAddresses st1 @ [addresses ! i]\<rparr>)"
  | (halted) err st1 where "geocodeWithRetry env (addresses ! i) st = (Threw err, st1)"
      "mapError st1 \<noteq> None" "brk"
      "st' = stopSearch (st1\<lparr>notFoundAddresses := notFoundAddresses st1 @ [addresses ! i]\<rparr>)"
proof -
  obtain res st1 where g: "geocodeWithRetry env (addresses ! i) st = (res, st1)"
    by (cases "geocodeWithRetry env (addresses ! i) st")
  show thesis
  proof (cases res)
    case (Returned r)
    show ?thesis
    proof (cases r)
      case None
      then show ?thesis using assms g Returned not_found
        by (simp add: search_step_def Let_def)
    next
      case (Some go)
      then show ?thesis using assms g Returned found
        by (simp add: search_step_def Let_def)
    qed
  next
    case (Threw err)
    show ?thesis
    proof (cases "mapError st1 = None")
      case True
      then show ?thesis using assms g Threw failed
        by (simp add: search_step_def Let_def)
    next
      case False
      then show ?thesis using assms g Threw halted
        by (simp add: search_step_def Let_def)
    qed
  qed
qed

lemma finish_search_fields:
  "foundAddressesCount (finish_search st) = foundAddressesCount st"
  "notFoundAddresses (finish_search st) = notFoundAddresses st"
  "totalAddressesCount (finish_search st) = totalAddressesCount st"
  "searchCancelled (finish_search st) = searchCancelled st"
  "geoObjectsCollection (finish_search st) = geoObjectsCollection st"
  "settings (finish_search st) = settings st"
  "localStorage (finish_search st) = localStorage st"
  "clock (finish_search st) = clock st"
  "\<not> isSearching (finish_search st)"
  by (simp_all add: finish_search_def)

lemma startSearch_ready:
  assumes "mapInitialized st"
  shows "startSearch env st =
     (if address_lines (addressesInput st) = [] then (begin_search st)\<lparr>isSearching := False\<rparr>
      else finish_search
             (last (search_states env (address_lines (addressesInput st)) 0 (begin_search st))))"
  using assms by (simp add: startSearch_def Let_def begin_search_fields)

lemma try_effects_address:
  "\<forall>ev \<in> set (try_effects env a c). is_lookup ev \<and> lookup_address ev = a"
  by (simp add: try_effects_def split: reply.splits)

lemma retry_loop_addresses:
  "\<forall>ev \<in> set (new_effects st (snd (retry_loop env a rc delays le n st))).
      is_lookup ev \<longrightarrow> lookup_address ev = a"
proof (rule retry_loop_rounds[where P = "\<lambda>le n st res.
    \<forall>ev \<in> set (new_effects st (snd res)). is_lookup ev \<longrightarrow> lookup_address ev = a"], goal_cases)
  case (1 le n st) then show ?case by (simp add: new_effects_self)
next
  case (2 le n st) then show ?case by (simp add: new_effects_self)
next
  case (3 le n st g st1)
  have "new_effects st st1 = try_effects env a (clock st)"
    using 3 try_geocode_new[of st env a] by simp
  then show ?case using try_effects_address[of env a "clock st"] by simp
next
  case (4 le n st e st1)
  have "new_effects st (st1\<lparr>mapError := Some InvalidApiKey\<rparr>) = try_effects env a (clock st)"
    using 4 try_geocode_new[of st env a] by (simp add: new_effects_def)
  then show ?case using try_effects_address[of env a "clock st"] by simp
next
  case (5 le n st e st1 st2)
  then show ?case
    using new_effects_retry[OF 5(3) 5(6), of rc delays "ThrownError e" "Suc n"]
      try_effects_address[of env a "clock st"]
    by auto
next
  case (6 le n st e st1)
  then show ?case
    using new_effects_final[OF 6(3), of rc delays "ThrownError e" "Suc n"]
      try_effects_address[of env a "clock st"]
    by auto
qed

lemma lookups_replicate:
  "\<forall>ev \<in> set xs. is_lookup ev \<longrightarrow> lookup_address ev = a \<Longrightarrow>
   map lookup_address (filter is_lookup xs) = replicate (length (filter is_lookup xs)) a"
  by (induction xs) auto

lemma geocodeWithRetry_effects:
  assumes "geocodeWithRetry env a st = (res, st1)"
  shows "effects st1 = effects st @ new_effects st st1"
    and "clock st1 = clock st + length (new_effects st st1)"
    and "map lookup_address (filter is_lookup (new_effects st st1)) =
           replicate (length (filter is_lookup (new_effects st st1))) a"
proof -
  show "effects st1 = effects st @ new_effects st st1"
    using assms retry_loop_effects[of env a "retryCount (settings st)"
        "retryDelays (settings st)" ThrownNull 0 st]
    by (simp add: geocodeWithRetry_def)
  show "clock st1 = clock st + length (new_effects st st1)"
    using assms retry_loop_clock[of env a "retryCount (settings st)"
        "retryDelays (settings st)" ThrownNull 0 st]
    by (simp add: geocodeWithRetry_def)
  have "\<forall>ev \<in> set (new_effects st st1). is_lookup ev \<longrightarrow> lookup_address ev = a"
    using assms retry_loop_addresses[of st env a "retryCount (settings st)"
        "retryDelays (settings st)" ThrownNull 0]
    by (simp add: geocodeWithRetry_def)
  then show "map lookup_address (filter is_lookup (new_effects st st1)) =
           replicate (length (filter is_lookup (new_effects st st1))) a"
    by (rule lookups_replicate)
qed


section \<open>The jobs of a run and their order\<close>









lemma search_states_nonempty: "search_states env addresses i st \<noteq> []"
  by (subst search_states.simps) simp





lemma two_lines_run:
  "foundAddressesCount (startSearch house_env two_lines_component) = 1"
  "notFoundAddresses (startSearch house_env two_lines_component) = [ascii ''B'']"
  "totalAddressesCount (startSearch house_env two_lines_component) = 2"
  "\<not> searchCancelled (startSearch house_env two_lines_component)"
  "mapInitialized two_lines_component"
  by code_simp+




section \<open>An error of the API key ends the run\<close>

text \<open>An error thrown by the retry loop is an error of the API key only with \<open>mapError\<close> set.\<close>

lemma retry_loop_auth_thrown:
  "(\<forall>e. le = ThrownError e \<longrightarrow> \<not> is_auth_error e) \<longrightarrow>
   (\<forall>e. fst (retry_loop env a rc delays le n st) = Threw (ThrownError e) \<and> is_auth_error e \<longrightarrow>
        mapError (snd (retry_loop env a rc delays le n st)) = Some InvalidApiKey)"
proof (rule retry_loop_rounds[where P = "\<lambda>le n st res.
    (\<forall>e. le = ThrownError e \<longrightarrow> \<not> is_auth_error e) \<longrightarrow>
    (\<forall>e. fst res = Threw (ThrownError e) \<and> is_auth_error e \<longrightarrow>
         mapError (snd res) = Some InvalidApiKey)"], goal_cases)
  case (1 le n st) then show ?case by auto
next
  case (2 le n st) then show ?case by simp
next
  case (3 le n st g st1) then show ?case by simp
next
  case (4 le n st e st1) then show ?case by simp
next
  case (5 le n st e st1 st2) then show ?case by simp
next
  case (6 le n st e st1) then show ?case by simp
qed

lemma geocodeWithRetry_auth_thrown:
  assumes "geocodeWithRetry env a st = (Threw (ThrownError e), st1)" and "is_auth_error e"
  shows "mapError st1 = Some InvalidApiKey"
  using assms retry_loop_auth_thrown[of ThrownNull env a "retryCount (settings st)"
      "retryDelays (settings st)" 0 st]
  by (simp add: geocodeWithRetry_def)

text \<open>
  Claim C6. On an initialised map, let the input have the jobs \<open>a1\<close> and then any others,
  and let resolving \<open>a1\<close> throw an error of the API key. Then the run ends in the state
  in which the resolver left the component, with \<open>a1\<close> as the one address not found,
  the cancellation flag set and the search no longer running: the effects and the
  clock are those of resolving the first job, so no call and no timer was issued for
  the later jobs, every lookup of the run asks for \<open>a1\<close>, and no later job is among the
  addresses not found.
\<close>

theorem auth_error_on_first_job:
  assumes "mapInitialized st"
    and "address_lines (addressesInput st) = a1 # rest"
    and "geocodeWithRetry env a1 (begin_search st) = (Threw (ThrownError e), st1)"
    and "is_auth_error e"
  shows "startSearch env st =
           st1\<lparr>notFoundAddresses := [a1], searchCancelled := True, isSearching := False\<rparr> \<and>
         notFoundAddresses (startSearch env st) = [a1] \<and>
         searchCancelled (startSearch env st) \<and>
         foundAddressesCount (startSearch env st) = 0 \<and>
         effects (startSearch env st) = effects st1 \<and>
         clock (startSearch env st) = clock st1 \<and>
         (\<forall>ev \<in> set (new_effects st (startSearch env st)).
            is_lookup ev \<longrightarrow> lookup_address ev = a1)"
proof -
  let ?A = "address_lines (addressesInput st)"
  let ?b = "begin_search st"
  have m: "mapError st1 = Some InvalidApiKey"
    by (rule geocodeWithRetry_auth_thrown[OF assms(3,4)])
  have cle: "count_le 0 (retryCount (settings ?b))"
  proof (rule ccontr)
    assume "\<not> count_le 0 (retryCount (settings ?b))"
    then have "geocodeWithRetry env a1 ?b = (Threw ThrownNull, ?b)"
      by (simp add: geocodeWithRetry_def retry_loop_done)
    then show False using assms(3) by simp
  qed
  have f: "no_results st1"
    using retry_loop_no_results[of ?b env a1 "retryCount (settings ?b)"
        "retryDelays (settings ?b)" ThrownNull 0] cle assms(3)
    by (simp add: geocodeWithRetry_def no_results_def begin_search_fields)
  have step: "search_step env ?A 0 ?b =
      (True, stopSearch (st1\<lparr>notFoundAddresses := notFoundAddresses st1 @ [a1]\<rparr>))"
    using assms(2,3) m by (simp add: search_step_def Let_def)
  have states: "search_states env ?A 0 ?b =
      [?b, stopSearch (st1\<lparr>notFoundAddresses := notFoundAddresses st1 @ [a1]\<rparr>)]"
    using assms(2) step by (intro search_states_break) (simp_all add: begin_search_fields)
  have nf: "notFoundAddresses st1 = []" and go: "geoObjectsCollection st1 = []"
    and fc: "foundAddressesCount st1 = 0"
    using f by (simp_all add: no_results_def)
  have run: "startSearch env st =
      finish_search (stopSearch (st1\<lparr>notFoundAddresses := notFoundAddresses st1 @ [a1]\<rparr>))"
    using startSearch_ready[OF assms(1), of env] assms(2) states by simp
  then have eq: "startSearch env st =
           st1\<lparr>notFoundAddresses := [a1], searchCancelled := True, isSearching := False\<rparr>"
    using nf go by (simp add: finish_search_def stopSearch_def)
  have e1: "effects st1 = effects ?b @ new_effects ?b st1"
    by (rule geocodeWithRetry_effects(1)[OF assms(3)])
  have "new_effects st (startSearch env st) = new_effects ?b st1"
    using eq e1 by (simp add: new_effects_def begin_search_fields)
  moreover have "\<forall>ev \<in> set (new_effects ?b st1). is_lookup ev \<longrightarrow> lookup_address ev = a1"
    using assms(3) retry_loop_addresses[of ?b env a1 "retryCount (settings ?b)"
        "retryDelays (settings ?b)" ThrownNull 0]
    by (simp add: geocodeWithRetry_def)
  ultimately have lk: "\<forall>ev \<in> set (new_effects st (startSearch env st)).
            is_lookup ev \<longrightarrow> lookup_address ev = a1"
    by simp
  show ?thesis using eq fc lk by simp
qed


lemma forbidden_first_job:
  "fst (geocodeWithRetry forbidden_env (ascii ''A'') (begin_search two_lines_component)) =
     Threw (ThrownError forbidden)"
  "address_lines (addressesInput two_lines_component) = ascii ''A'' # [ascii ''B'']"
  "is_auth_error forbidden"
  by code_simp+

theorem auth_error_on_first_job_witness:
  "mapInitialized two_lines_component \<and>
   address_lines (addressesInput two_lines_component) = ascii ''A'' # [ascii ''B''] \<and>
   fst (geocodeWithRetry forbidden_env (ascii ''A'') (begin_search two_lines_component)) =
     Threw (ThrownError forbidden) \<and>
   is_auth_error forbidden \<and>
   notFoundAddresses (startSearch forbidden_env two_lines_component) = [ascii ''A''] \<and>
   searchCancelled (startSearch forbidden_env two_lines_component)"
proof -
  have h1: "mapInitialized two_lines_component" by (rule two_lines_run)
  have h3: "geocodeWithRetry forbidden_env (ascii ''A'') (begin_search two_lines_component) =
     (Threw (ThrownError forbidden),
      snd (geocodeWithRetry forbidden_env (ascii ''A'') (begin_search two_lines_component)))"
    using forbidden_first_job(1) by (simp add: prod_eq_iff)
  note run = auth_error_on_first_job [OF h1 forbidden_first_job(2) h3 forbidden_first_job(3)]
  have r1: "notFoundAddresses (startSearch forbidden_env two_lines_component) = [ascii ''A'']"
    using run [THEN conjunct2, THEN conjunct1] .
  have r2: "searchCancelled (startSearch forbidden_env two_lines_component)"
    using run [THEN conjunct2, THEN conjunct2, THEN conjunct1] .
  show ?thesis using h1 forbidden_first_job r1 r2 by blast
qed

section \<open>Calls of startSearch side by side\<close>

lemma then_job_frame: "search_frame st (snd (then_job g r st))"
  by (simp add: then_job_def search_frame_def addPlacemark_def Let_def split: option.splits)

lemma catch_attempt_frame: "search_frame st (snd (catch_attempt e r st))"
proof -
  have "search_frame st (st\<lparr>mapError := Some InvalidApiKey\<rparr>)"
    by (simp add: search_frame_def)
  then have "search_frame st
      (snd (catch_job (r\<lparr>run_lastError := ThrownError e\<rparr>) (st\<lparr>mapError := Some InvalidApiKey\<rparr>)))"
    using catch_job_frame(1) by (rule search_frame_trans)
  then show ?thesis
    by (simp add: catch_attempt_def Let_def next_attempt_frame search_frame_refl)
qed

lemma resume_frame: "search_frame st (snd (resume rep r st))"
  by (simp add: resume_def Let_def catch_attempt_frame then_job_frame next_attempt_frame
      next_job_frame search_frame_refl split: run_point.splits reply.splits)

lemma settle_frame: "search_frame st (settle k rep st)"
proof (cases "k < length (runs st)")
  case False
  then show ?thesis by (simp add: settle_def search_frame_refl)
next
  case True
  obtain r' st' where r: "resume rep (runs st ! k) st = (r', st')"
    by (cases "resume rep (runs st ! k) st")
  then have "search_frame st st'" using resume_frame[of st rep "runs st ! k"] by simp
  then show ?thesis using True r by (simp add: settle_def search_frame_def)
qed

section \<open>The delays of the settings\<close>

lemma parse_delays_valid:
  "\<forall>d \<in> set (parse_delays parseFloat txt). js_positive d \<and> \<not> js_isNaN d"
  by (auto simp add: parse_delays_def)

lemma saveSettings_rejects:
  "parse_delays parseFloat (tempRetryDelays st) = [] \<Longrightarrow>
   saveSettings parseFloat st = st\<lparr>effects := effects st @ [EAlert AlertDelaysInvalid]\<rparr>"
  by (simp add: saveSettings_def Let_def)

lemma saveSettings_writes:
  "settings (saveSettings parseFloat st) = settings st \<and>
   localStorage (saveSettings parseFloat st) = localStorage st \<or>
   localStorage (saveSettings parseFloat st) =
     Some (JSON_stringify (settings (saveSettings parseFloat st))) \<and>
   retryDelays (settings (saveSettings parseFloat st)) =
     parse_delays parseFloat (tempRetryDelays st) \<and>
   parse_delays parseFloat (tempRetryDelays st) \<noteq> []"
  by (simp add: saveSettings_def Let_def closeSettings_def)

lemma ngAfterViewInit_delays:
  assumes "case stored of None \<Rightarrow> True | Some s \<Rightarrow> stored_retryDelays s \<noteq> []"
  shows "delays_in_effect (ngAfterViewInit joinDelays (initial_component stored))"
  using assms
  by (cases stored)
     (simp_all add: delays_in_effect_def ngAfterViewInit_def loadSettings_def Let_def
        openSettings_def initial_component_def JSON_parse_def)

lemma ui_step_delays:
  assumes "delays_in_effect st"
  shows "delays_in_effect (ui_step parseFloat joinDelays st ev)"
proof (cases ev)
  case SaveSettings
  then show ?thesis
    using assms saveSettings_writes[of parseFloat st]
    by (auto simp add: delays_in_effect_def JSON_stringify_def)
next
  case SearchClick
  then show ?thesis
    using assms toggleSearch_frame[of st]
    by (simp add: delays_in_effect_def suspension_frame_def search_frame_def)
next
  case (Settled k rep)
  then show ?thesis
    using assms settle_frame[of st k rep]
    by (simp add: delays_in_effect_def search_frame_def)
next
  case PageReload
  then show ?thesis
    using assms ngAfterViewInit_delays[of "localStorage st" joinDelays]
    by (simp add: delays_in_effect_def)
qed (use assms in \<open>simp_all add: delays_in_effect_def openSettings_def closeSettings_def Let_def\<close>)

lemma foldl_ui_step_delays:
  "delays_in_effect st \<Longrightarrow> delays_in_effect (foldl (ui_step parseFloat joinDelays) st events)"
  by (induction events arbitrary: st) (simp_all add: ui_step_delays)

lemma page_history_delays: "delays_in_effect (page_history parseFloat joinDelays events)"
  unfolding page_history_def
  by (rule foldl_ui_step_delays) (rule ngAfterViewInit_delays, simp)

text \<open>
  What holds of the delays whatever is entered. When the text of the delays parses to
  no positive number, \<open>saveSettings\<close> only alerts: the settings in memory and the stored
  item stay as they were. Whenever \<open>saveSettings\<close> does write, the delays it puts in
  memory are non-empty and each of them passed the test \<open>!isNaN(n) && n > 0\<close>. And
  after any history of a page that starts with an empty storage (the dialog's handlers,
  saves, clicks on the search button, calls of \<open>startSearch\<close> going on, reloads), the
  delays of the settings in effect and of the stored item are never empty.
\<close>

lemma delays_never_empty:
  "(parse_delays parseFloat (tempRetryDelays st) = [] \<longrightarrow>
      saveSettings parseFloat st = st\<lparr>effects := effects st @ [EAlert AlertDelaysInvalid]\<rparr> \<and>
      settings (saveSettings parseFloat st) = settings st \<and>
      localStorage (saveSettings parseFloat st) = localStorage st) \<and>
   (settings (saveSettings parseFloat st) = settings st \<and>
    localStorage (saveSettings parseFloat st) = localStorage st \<or>
    localStorage (saveSettings parseFloat st) =
      Some (JSON_stringify (settings (saveSettings parseFloat st))) \<and>
    retryDelays (settings (saveSettings parseFloat st)) \<noteq> [] \<and>
    (\<forall>d \<in> set (retryDelays (settings (saveSettings parseFloat st))).
       js_positive d \<and> \<not> js_isNaN d)) \<and>
   retryDelays (settings (page_history parseFloat joinDelays events)) \<noteq> [] \<and>
   (\<forall>s. localStorage (page_history parseFloat joinDelays events) = Some s \<longrightarrow>
        stored_retryDelays s \<noteq> [])"
proof -
  have c1: "parse_delays parseFloat (tempRetryDelays st) = [] \<longrightarrow>
      saveSettings parseFloat st = st\<lparr>effects := effects st @ [EAlert AlertDelaysInvalid]\<rparr> \<and>
      settings (saveSettings parseFloat st) = settings st \<and>
      localStorage (saveSettings parseFloat st) = localStorage st"
    by (simp add: saveSettings_rejects)
  have c2: "settings (saveSettings parseFloat st) = settings st \<and>
    localStorage (saveSettings parseFloat st) = localStorage st \<or>
    localStorage (saveSettings parseFloat st) =
      Some (JSON_stringify (settings (saveSettings parseFloat st))) \<and>
    retryDelays (settings (saveSettings parseFloat st)) \<noteq> [] \<and>
    (\<forall>d \<in> set (retryDelays (settings (saveSettings parseFloat st))).
       js_positive d \<and> \<not> js_isNaN d)"
    using saveSettings_writes[of parseFloat st]
      parse_delays_valid[of parseFloat "tempRetryDelays st"]
    by auto
  have c3: "retryDelays (settings (page_history parseFloat joinDelays events)) \<noteq> [] \<and>
   (\<forall>s. localStorage (page_history parseFloat joinDelays events) = Some s \<longrightarrow>
        stored_retryDelays s \<noteq> [])"
    using page_history_delays[of parseFloat joinDelays events]
    by (auto simp add: delays_in_effect_def)
  show ?thesis using c1 c2 c3 by blast
qed

lemma dialog_fields:
  "js_split 0x2C (ascii ''Infinity'') = [ascii ''Infinity'']"
  "js_trim (ascii ''Infinity'') = ascii ''Infinity''"
  "js_trim (tempApiKey (dialog_component txt)) = ascii ''key''"
  "apiKey (settings (dialog_component txt)) = ascii ''key''"
  "ascii ''key'' \<noteq> []"
  "tempRetryCount (dialog_component txt) = Count 3"
  "tempRetryDelays (dialog_component txt) = txt"
  "mapInitialized (dialog_component txt)"
  by code_simp+

text \<open>
  Claim C9 says that every saved delay sequence contains only strictly positive numbers,
  and the alert of \<open>saveSettings\<close> says that the delays must be positive numbers. The
  code at the input \<open>Infinity\<close>, which \<open>parseFloat\<close> reads as the number \<open>Infinity\<close>:
  the value passes the test \<open>!isNaN(n) && n > 0\<close>, so \<open>saveSettings\<close> accepts the
  text, keeps the delays \<open>[Infinity]\<close> in memory and writes the item with the delays
  \<open>[null]\<close>; after a reload of the page the delays in effect are \<open>[null]\<close>, and \<open>null\<close>
  is not a number greater than zero.
\<close>

theorem infinite_delay_saved_as_null:
  assumes "parseFloat (ascii ''Infinity'') = PosInf"
  shows "retryDelays (settings (saveSettings parseFloat (dialog_component (ascii ''Infinity'')))) =
           [PosInf] \<and>
         localStorage (saveSettings parseFloat (dialog_component (ascii ''Infinity''))) =
           Some \<lparr>stored_apiKey = ascii ''key'', stored_retryCount = Some 3,
                 stored_retryDelays = [None]\<rparr> \<and>
         retryDelays (settings (ui_step parseFloat joinDelays
           (saveSettings parseFloat (dialog_component (ascii ''Infinity''))) PageReload)) =
           [Null] \<and>
         \<not> js_positive Null"
proof -
  have pd: "parse_delays parseFloat (tempRetryDelays (dialog_component (ascii ''Infinity''))) =
              [PosInf]"
    using assms by (simp add: parse_delays_def dialog_fields)
  have s: "settings (saveSettings parseFloat (dialog_component (ascii ''Infinity''))) =
             \<lparr>apiKey = ascii ''key'', retryCount = Count 3, retryDelays = [PosInf]\<rparr>"
    and l: "localStorage (saveSettings parseFloat (dialog_component (ascii ''Infinity''))) =
           Some \<lparr>stored_apiKey = ascii ''key'', stored_retryCount = Some 3,
                 stored_retryDelays = [None]\<rparr>"
    using pd
    by (simp_all add: saveSettings_def Let_def dialog_fields closeSettings_def
        JSON_stringify_def)
  have r: "retryDelays (settings (ui_step parseFloat joinDelays
           (saveSettings parseFloat (dialog_component (ascii ''Infinity''))) PageReload)) =
           [Null]"
    using l
    by (simp add: ngAfterViewInit_def loadSettings_def Let_def initial_component_def
        JSON_parse_def dialog_fields openSettings_def)
  show ?thesis using s l r by simp
qed

theorem infinite_delay_saved_as_null_witness:
  "toy_parseFloat (ascii ''Infinity'') = PosInf \<and>
   retryDelays (settings (saveSettings toy_parseFloat (dialog_component (ascii ''Infinity'')))) =
     [PosInf] \<and>
   retryDelays (settings (ui_step toy_parseFloat toy_join
     (saveSettings toy_parseFloat (dialog_component (ascii ''Infinity''))) PageReload)) = [Null]"
proof -
  have h: "toy_parseFloat (ascii ''Infinity'') = PosInf" by code_simp
  show ?thesis
    using infinite_delay_saved_as_null [of toy_parseFloat toy_join, OF h] h by blast
qed

section \<open>A search started again while the stopped one is suspended\<close>

text \<open>
  Claim C7 says that once \<open>stopSearch\<close> has set the cancellation flag, no further job of
  the run is started, and the code checks the flag before every job and every attempt.
  The code at the input \<open>A\<close>, an empty line, \<open>B\<close>, with the search stopped while the
  lookup of \<open>A\<close> is pending and started again before the provider answers: the first
  click on stop sets the flag and leaves the first call of \<open>startSearch\<close> suspended at
  its bounded lookup; the next click starts a second call, which resets the flag that
  both share. When the lookup of the first call is answered and its pause is over,
  the first call finds the flag down and begins job \<open>1\<close>: it is suspended at the
  bounded lookup of \<open>B\<close>, which the provider then answers.
\<close>

theorem restart_revives_stopped_run:
  "searchCancelled (toggleSearch (toggleSearch two_lines_component)) \<and>
   \<not> isSearching (toggleSearch (toggleSearch two_lines_component)) \<and>
   map run_point (runs (toggleSearch (toggleSearch two_lines_component))) = [AtBoundedLookup] \<and>
   \<not> searchCancelled stop_and_restart \<and>
   map run_point (runs stop_and_restart) = [AtBoundedLookup, AtBoundedLookup] \<and>
   (let p = settle 0 NoMatch (settle 0 (Match house) stop_and_restart)
    in \<not> searchCancelled p \<and>
       run_i (runs p ! 0) = 1 \<and> run_point (runs p ! 0) = AtBoundedLookup \<and>
       run_addresses (runs p ! 0) ! run_i (runs p ! 0) = ascii ''B'' \<and>
       run_trace (runs (settle 0 NoMatch p) ! 0) =
         [EGeocode (ascii ''A'') True (Match house), EPause GEOCODE_DELAY_MS,
          EGeocode (ascii ''B'') True NoMatch])"
  by code_simp

text \<open>
  Claim C2 says that the found count plus the number of addresses not found never
  exceeds the total and equals it when a run ends without cancellation, and
  \<open>startSearch\<close> resets the counters for the run it starts. The code at the same input
  and clicks, with every lookup answered by a match: the two calls of \<open>startSearch\<close>
  go through both jobs side by side and count into the same fields. After the first
  call has found \<open>A\<close> and \<open>B\<close> and the second has found \<open>A\<close>, the found count is \<open>3\<close>
  with a total of \<open>2\<close>; when both calls have ended, without the cancellation flag, it
  is \<open>4\<close>.
\<close>

theorem overlapping_runs_exceed_total:
  "(let p = settle 0 (Match house) (settle 1 (Match house)
              (settle 0 NoMatch (settle 0 (Match house) stop_and_restart)))
    in foundAddressesCount p = 3 \<and> notFoundAddresses p = [] \<and> totalAddressesCount p = 2 \<and>
       (let e = settle 1 NoMatch (settle 0 NoMatch
                  (settle 1 (Match house) (settle 1 NoMatch p)))
        in map run_point (runs e) = [Ended, Ended] \<and> \<not> isSearching e \<and>
           \<not> searchCancelled e \<and> foundAddressesCount e = 4 \<and> notFoundAddresses e = [] \<and>
           totalAddressesCount e = 2))"
  by code_simp

section \<open>The followed call is a call of the page\<close>

text \<open>
  The functions of a call between two suspensions commute with setting the log and
  the clock, which they neither read nor write.
\<close>

lemma level_level [simp]: "level E C (level E' C' p) = level E C p"
  by (simp add: level_def)

lemma end_run_level: "end_run r (s\<lparr>effects := E, clock := C\<rparr>) = level E C (end_run r s)"
  by (simp add: end_run_def level_def)

lemma catch_job_level: "catch_job r (s\<lparr>effects := E, clock := C\<rparr>) = level E C (catch_job r s)"
  by (simp add: catch_job_def end_run_def stopSearch_def level_def Let_def)

lemma then_job_level: "then_job g r (s\<lparr>effects := E, clock := C\<rparr>) = level E C (then_job g r s)"
  by (simp add: then_job_def addPlacemark_def level_def Let_def split: option.splits)

lemma next_attempt_level:
  "next_attempt r (s\<lparr>effects := E, clock := C\<rparr>) = level E C (next_attempt r s)"
  by (simp add: next_attempt_def catch_job_level) (simp add: level_def)

lemma catch_attempt_level:
  "catch_attempt e r (s\<lparr>effects := E, clock := C\<rparr>) = level E C (catch_attempt e r s)"
proof -
  have h: "s\<lparr>effects := E, clock := C, mapError := Some InvalidApiKey\<rparr> =
        s\<lparr>mapError := Some InvalidApiKey\<rparr>\<lparr>effects := E, clock := C\<rparr>"
    by simp
  show ?thesis
    unfolding catch_attempt_def Let_def h catch_job_level next_attempt_level
    by (simp add: level_def)
qed

lemma next_job_level: "next_job r (s\<lparr>effects := E, clock := C\<rparr>) = level E C (next_job r s)"
  by (simp add: next_job_def next_attempt_level end_run_level)

lemma resume_level: "resume rep r (s\<lparr>effects := E, clock := C\<rparr>) = level E C (resume rep r s)"
  by (simp add: resume_def Let_def catch_attempt_level then_job_level next_attempt_level
      next_job_level split: run_point.splits reply.splits)
     (simp add: level_def)

lemma begin_search_level:
  "begin_search (s\<lparr>effects := E, clock := C\<rparr>) = (begin_search s)\<lparr>effects := E, clock := C\<rparr>"
  by (simp add: begin_search_def Let_def)

lemma call_startSearch_level:
  "call_startSearch (s\<lparr>effects := E, clock := C\<rparr>) = level E C (call_startSearch s)"
  by (simp add: call_startSearch_def Let_def begin_search_level next_job_level)
     (simp add: level_def begin_search_fields)

lemma start_run_level:
  "start_run (s\<lparr>effects := E, clock := C\<rparr>) = (start_run s)\<lparr>effects := E, clock := C\<rparr>"
  by (simp add: start_run_def call_startSearch_level level_def split: prod.splits)

lemma click_level:
  "click_while_suspended t (s\<lparr>effects := E, clock := C\<rparr>) =
     (click_while_suspended t s)\<lparr>effects := E, clock := C\<rparr>"
  by (simp add: click_while_suspended_def toggleSearch_def start_run_level stopSearch_def)

lemma pair_tick_level: "pair_tick env (level E C p) t = level E C (pair_tick env p t)"
  by (simp add: pair_tick_def level_def click_level resume_level)

lemma foldl_pair_tick_level:
  "foldl (pair_tick env) (level E C p) ts = level E C (foldl (pair_tick env) p ts)"
  by (induction ts arbitrary: p) (simp_all add: pair_tick_level)

text \<open>The code of a call neither reads nor writes the calls of the page.\<close>

lemma end_run_runs: "end_run r (s\<lparr>runs := X\<rparr>) = (fst (end_run r s), (snd (end_run r s))\<lparr>runs := X\<rparr>)"
  by (simp add: end_run_def)

lemma catch_job_runs:
  "catch_job r (s\<lparr>runs := X\<rparr>) = (fst (catch_job r s), (snd (catch_job r s))\<lparr>runs := X\<rparr>)"
  by (simp add: catch_job_def end_run_def stopSearch_def Let_def)

lemma then_job_runs:
  "then_job g r (s\<lparr>runs := X\<rparr>) = (fst (then_job g r s), (snd (then_job g r s))\<lparr>runs := X\<rparr>)"
  by (simp add: then_job_def addPlacemark_def Let_def split: option.splits)

lemma next_attempt_runs:
  "next_attempt r (s\<lparr>runs := X\<rparr>) =
     (fst (next_attempt r s), (snd (next_attempt r s))\<lparr>runs := X\<rparr>)"
  by (simp add: next_attempt_def catch_job_runs)

lemma catch_attempt_runs:
  "catch_attempt e r (s\<lparr>runs := X\<rparr>) =
     (fst (catch_attempt e r s), (snd (catch_attempt e r s))\<lparr>runs := X\<rparr>)"
proof -
  have h: "s\<lparr>runs := X, mapError := Some InvalidApiKey\<rparr> =
        s\<lparr>mapError := Some InvalidApiKey\<rparr>\<lparr>runs := X\<rparr>"
    by simp
  show ?thesis
    unfolding catch_attempt_def Let_def h catch_job_runs next_attempt_runs
    by simp
qed

lemma next_job_runs:
  "next_job r (s\<lparr>runs := X\<rparr>) = (fst (next_job r s), (snd (next_job r s))\<lparr>runs := X\<rparr>)"
  by (simp add: next_job_def next_attempt_runs end_run_runs)

lemma resume_runs:
  "resume rep r (s\<lparr>runs := X\<rparr>) = (fst (resume rep r s), (snd (resume rep r s))\<lparr>runs := X\<rparr>)"
  by (simp add: resume_def Let_def catch_attempt_runs then_job_runs next_attempt_runs
      next_job_runs split: run_point.splits reply.splits)

lemma resume_keeps_runs: "runs (snd (resume rep r s)) = runs s"
proof -
  have "runs (snd (catch_attempt e r s)) = runs s" for e r
    by (simp add: catch_attempt_def Let_def catch_job_frame next_attempt_frame)
  moreover have "runs (snd (then_job g r s)) = runs s" for g r
    by (simp add: then_job_def addPlacemark_def Let_def split: option.splits)
  ultimately show ?thesis
    by (simp add: resume_def Let_def next_attempt_frame next_job_frame
        split: run_point.splits reply.splits)
qed

lemma call_startSearch_runs:
  "call_startSearch (s\<lparr>runs := X\<rparr>) =
     (fst (call_startSearch s), (snd (call_startSearch s))\<lparr>runs := X\<rparr>)"
proof -
  have b: "begin_search (s\<lparr>runs := X\<rparr>) = (begin_search s)\<lparr>runs := X\<rparr>"
    by (simp add: begin_search_def Let_def)
  show ?thesis
    by (simp add: call_startSearch_def Let_def b next_job_runs begin_search_fields)
qed

lemma start_run_alt:
  "start_run s = (snd (call_startSearch s))\<lparr>runs := runs s @ [fst (call_startSearch s)]\<rparr>"
  using call_startSearch_frame(5)[of s] by (auto simp add: start_run_def split: prod.splits)

lemma click_with_call:
  assumes "k \<le> length (runs s)"
  shows "click_while_suspended t (with_call k r s) = with_call k r (click_while_suspended t s)"
proof -
  have st: "start_run (with_call k r s) = with_call k r (start_run s)"
    using assms by (simp add: start_run_alt with_call_def call_startSearch_runs)
  show ?thesis
    by (simp add: click_while_suspended_def toggleSearch_def st)
       (simp add: with_call_def stopSearch_def)
qed

lemma click_runs_grow: "length (runs s) \<le> length (runs (click_while_suspended t s))"
  by (simp add: click_while_suspended_def toggleSearch_def stopSearch_def start_run_alt)

lemma settle_with_call:
  assumes "k \<le> length (runs s)"
  shows "settle k rep (with_call k r s) =
           with_call k (fst (resume rep r s)) (snd (resume rep r s))"
proof -
  have n: "runs (with_call k r s) ! k = r" "k < length (runs (with_call k r s))"
    using assms by (simp_all add: with_call_def nth_append)
  have u: "(take k (runs s) @ r # drop k (runs s))[k := r'] = take k (runs s) @ r' # drop k (runs s)"
    for r'
    using assms by (simp add: list_update_append)
  show ?thesis
    using n u resume_keeps_runs[of rep r s]
    by (simp add: settle_def with_call_def resume_runs split: prod.splits)
qed

lemma tick_step_with_call:
  assumes "k \<le> length (runs s)"
  shows "tick_step env k (with_call k r s) t =
           with_call k (fst (pair_tick env (r, s) t)) (snd (pair_tick env (r, s) t))"
  using assms click_runs_grow[of s "env t"]
  by (simp add: tick_step_def pair_tick_def click_with_call settle_with_call)

lemma pair_tick_runs_grow: "length (runs (snd p)) \<le> length (runs (snd (pair_tick env p t)))"
  using click_runs_grow[of "snd p" "env t"]
  by (simp add: pair_tick_def resume_keeps_runs)

lemma foldl_tick_step_with_call:
  "k \<le> length (runs (snd p)) \<Longrightarrow>
   foldl (tick_step env k) (with_call k (fst p) (snd p)) ts =
     with_call k (fst (foldl (pair_tick env) p ts)) (snd (foldl (pair_tick env) p ts))"
proof (induction ts arbitrary: p)
  case Nil
  then show ?case by simp
next
  case (Cons t ts)
  have "k \<le> length (runs (snd (pair_tick env p t)))"
    using Cons.prems pair_tick_runs_grow[of p env t] by linarith
  then show ?case
    using Cons.IH[of "pair_tick env p t"] Cons.prems
    by (simp add: tick_step_with_call[of k "snd p" env "fst p" t])
qed

text \<open>Where a call was suspended does not matter to the code that goes on from there.\<close>

lemma point_irrelevant:
  "end_run (r\<lparr>run_point := p\<rparr>) s = end_run r s"
  "catch_job (r\<lparr>run_point := p\<rparr>) s = catch_job r s"
  "then_job g (r\<lparr>run_point := p\<rparr>) s = then_job g r s"
  "next_attempt (r\<lparr>run_point := p\<rparr>) s = next_attempt r s"
  "catch_attempt e (r\<lparr>run_point := p\<rparr>) s = catch_attempt e r s"
  "next_job (r\<lparr>run_point := p\<rparr>) s = next_job r s"
  by (simp_all add: end_run_def catch_job_def then_job_def next_attempt_def catch_attempt_def
      next_job_def Let_def split: option.splits)

lemma point_irrelevant_trace:
  "then_job g (r\<lparr>run_point := p, run_trace := t\<rparr>) s = then_job g (r\<lparr>run_trace := t\<rparr>) s"
  "catch_attempt e (r\<lparr>run_point := p, run_trace := t\<rparr>) s =
     catch_attempt e (r\<lparr>run_trace := t\<rparr>) s"
  by (simp_all add: end_run_def catch_job_def then_job_def next_attempt_def catch_attempt_def
      Let_def split: option.splits)

lemma await_geocode_level:
  "snd (await_geocode env a b st) =
     (click_while_suspended (env (clock st)) st)
       \<lparr>effects := effects st @ [EGeocode a b (provider_reply (env (clock st)))],
        clock := Suc (clock st)\<rparr>"
  by (simp add: await_geocode_click click_level)

lemma await_timeout_level:
  "await_timeout env tm st =
     (click_while_suspended (env (clock st)) st)
       \<lparr>effects := effects st @ [tm], clock := Suc (clock st)\<rparr>"
  by (simp add: await_timeout_click click_level)

text \<open>One try block, tick by tick.\<close>

lemma try_geocode_stepwise:
  assumes "run_point r = AtBoundedLookup" and "run_addresses r ! run_i r = a"
    and "try_geocode env a st = (x, st1)"
  shows "level E C (foldl (pair_tick env) (r, st) [clock st..<clock st1]) =
         level E C (case x of
             Inr g \<Rightarrow> then_job g (r\<lparr>run_trace := run_trace r @ try_effects env a (clock st)\<rparr>) st1
           | Inl e \<Rightarrow> catch_attempt e
                       (r\<lparr>run_trace := run_trace r @ try_effects env a (clock st)\<rparr>) st1)"
proof -
  let ?c = "clock st"
  let ?s1 = "click_while_suspended (env ?c) st"
  have c1: "clock st1 = ?c + length (try_effects env a ?c)"
    using try_geocode_clock[of env a st] assms(3) by simp
  show ?thesis
  proof (cases "provider_reply (env ?c)")
    case (Failure e)
    have t: "x = Inl e" "st1 = snd (await_geocode env a True st)"
      using assms(3) Failure
      by (simp_all add: try_geocode_def await_geocode_click split: prod.splits)
    have te: "try_effects env a ?c = [EGeocode a True (Failure e)]"
      using Failure by (simp add: try_effects_def)
    have "[?c..<clock st1] = [?c]" using c1 te by (simp add: upt_rec)
    then show ?thesis
      using assms(1,2) Failure t te
      by (simp add: pair_tick_def resume_def Let_def await_geocode_level catch_attempt_level)
  next
    case (Match g)
    have t: "x = Inr (Some g)" "st1 = snd (await_geocode env a True st)"
      using assms(3) Match
      by (simp_all add: try_geocode_def await_geocode_click split: prod.splits)
    have te: "try_effects env a ?c = [EGeocode a True (Match g)]"
      using Match by (simp add: try_effects_def)
    have "[?c..<clock st1] = [?c]" using c1 te by (simp add: upt_rec)
    then show ?thesis
      using assms(1,2) Match t te
      by (simp add: pair_tick_def resume_def Let_def await_geocode_level then_job_level)
  next
    case NoMatch
    let ?r2 = "provider_reply (env (Suc ?c))"
    let ?s2 = "click_while_suspended (env (Suc ?c)) ?s1"
    let ?st1 = "?s2\<lparr>effects := effects st @ [EGeocode a True NoMatch, EGeocode a False ?r2],
                    clock := Suc (Suc ?c)\<rparr>"
    have "try_geocode env a st =
            (case ?r2 of Failure e \<Rightarrow> (Inl e, ?st1) | Match g \<Rightarrow> (Inr (Some g), ?st1)
             | NoMatch \<Rightarrow> (Inr None, ?st1))"
      using NoMatch
      by (simp add: try_geocode_def await_geocode_click click_level click_fields
          split: reply.splits)
    then have s1: "st1 = ?st1"
      and x: "x = (case ?r2 of Failure e \<Rightarrow> Inl e | Match g \<Rightarrow> Inr (Some g) | NoMatch \<Rightarrow> Inr None)"
      using assms(3) by (simp_all split: reply.splits)
    have te: "try_effects env a ?c = [EGeocode a True NoMatch, EGeocode a False ?r2]"
      using NoMatch by (simp add: try_effects_def)
    have "[?c..<clock st1] = [?c, Suc ?c]" using c1 te by (simp add: upt_rec)
    then show ?thesis
      using assms(1,2) NoMatch te x
      by (cases ?r2)
         (simp_all add: pair_tick_def resume_def Let_def s1 catch_attempt_level then_job_level
            point_irrelevant_trace)
  qed
qed

lemma foldl_ticks_compose:
  assumes "c \<le> c1" and "c1 \<le> c2"
    and "level E C (foldl (pair_tick env) p [c..<c1]) = level E C q"
    and "level E C (foldl (pair_tick env) q [c1..<c2]) = level E C z"
  shows "level E C (foldl (pair_tick env) p [c..<c2]) = level E C z"
proof -
  have "[c..<c2] = [c..<c1] @ [c1..<c2]"
    using assms(1,2) by (metis le_Suc_ex upt_add_eq_append)
  then have "level E C (foldl (pair_tick env) p [c..<c2]) =
             level E C (foldl (pair_tick env) (foldl (pair_tick env) p [c..<c1]) [c1..<c2])"
    by simp
  also have "\<dots> = foldl (pair_tick env) (level E C (foldl (pair_tick env) p [c..<c1])) [c1..<c2]"
    by (simp add: foldl_pair_tick_level)
  also have "\<dots> = level E C (foldl (pair_tick env) q [c1..<c2])"
    by (simp add: assms(3) foldl_pair_tick_level)
  finally show ?thesis using assms(4) by simp
qed

lemma one_tick: "foldl (pair_tick env) p [c..<Suc c] = pair_tick env p c"
  by (simp add: upt_rec)

text \<open>The retry loop, tick by tick.\<close>

lemma retry_loop_stepwise:
  "\<forall>(r::run) E C. run_attempt r = n \<and> run_retryCount r = rc \<and> run_retryDelays r = delays \<and>
            run_addresses r ! run_i r = a \<longrightarrow>
     (\<exists>r1::run. run_addresses r1 = run_addresses r \<and> run_i r1 = run_i r \<and>
        run_trace r1 = run_trace r @ new_effects st (snd (retry_loop env a rc delays le n st)) \<and>
        level E C (foldl (pair_tick env) (next_attempt r st)
                     [clock st..<clock (snd (retry_loop env a rc delays le n st))]) =
        level E C (after_resolver (fst (retry_loop env a rc delays le n st)) r1
                     (snd (retry_loop env a rc delays le n st))))"
proof (rule retry_loop_rounds[where P = "\<lambda>le n st res.
   \<forall>(r::run) E C. run_attempt r = n \<and> run_retryCount r = rc \<and> run_retryDelays r = delays \<and>
            run_addresses r ! run_i r = a \<longrightarrow>
     (\<exists>r1::run. run_addresses r1 = run_addresses r \<and> run_i r1 = run_i r \<and>
        run_trace r1 = run_trace r @ new_effects st (snd res) \<and>
        level E C (foldl (pair_tick env) (next_attempt r st) [clock st..<clock (snd res)]) =
        level E C (after_resolver (fst res) r1 (snd res)))"], goal_cases)
  case (1 le n st)
  show ?case
  proof (intro allI impI)
    fix r :: run and E C
    assume f: "run_attempt r = n \<and> run_retryCount r = rc \<and> run_retryDelays r = delays \<and>
            run_addresses r ! run_i r = a"
    have "next_attempt r st = catch_job r st" using 1 f by (simp add: next_attempt_def)
    then have "run_addresses r = run_addresses r \<and> run_i r = run_i r \<and>
        run_trace r = run_trace r @ new_effects st (snd (Threw le, st)) \<and>
        level E C (foldl (pair_tick env) (next_attempt r st) [clock st..<clock (snd (Threw le, st))]) =
        level E C (after_resolver (fst (Threw le, st)) r (snd (Threw le, st)))"
      by (simp add: new_effects_self after_resolver_def)
    then show "\<exists>r1::run. run_addresses r1 = run_addresses r \<and> run_i r1 = run_i r \<and>
        run_trace r1 = run_trace r @ new_effects st (snd (Threw le, st)) \<and>
        level E C (foldl (pair_tick env) (next_attempt r st) [clock st..<clock (snd (Threw le, st))]) =
        level E C (after_resolver (fst (Threw le, st)) r1 (snd (Threw le, st)))"
      by (rule exI)
  qed
next
  case (2 le n st)
  show ?case
  proof (intro allI impI)
    fix r :: run and E C
    assume f: "run_attempt r = n \<and> run_retryCount r = rc \<and> run_retryDelays r = delays \<and>
            run_addresses r ! run_i r = a"
    have "next_attempt r st = catch_job r st" using 2 f by (simp add: next_attempt_def)
    then have "run_addresses r = run_addresses r \<and> run_i r = run_i r \<and>
        run_trace r = run_trace r @ new_effects st (snd (Threw ThrownCancelled, st)) \<and>
        level E C (foldl (pair_tick env) (next_attempt r st)
                     [clock st..<clock (snd (Threw ThrownCancelled, st))]) =
        level E C (after_resolver (fst (Threw ThrownCancelled, st)) r
                     (snd (Threw ThrownCancelled, st)))"
      by (simp add: new_effects_self after_resolver_def)
    then show "\<exists>r1::run. run_addresses r1 = run_addresses r \<and> run_i r1 = run_i r \<and>
        run_trace r1 = run_trace r @ new_effects st (snd (Threw ThrownCancelled, st)) \<and>
        level E C (foldl (pair_tick env) (next_attempt r st)
                     [clock st..<clock (snd (Threw ThrownCancelled, st))]) =
        level E C (after_resolver (fst (Threw ThrownCancelled, st)) r1
                     (snd (Threw ThrownCancelled, st)))"
      by (rule exI)
  qed
next
  case (3 le n st g st1)
  show ?case
  proof (intro allI impI)
    fix r :: run and E C
    assume f: "run_attempt r = n \<and> run_retryCount r = rc \<and> run_retryDelays r = delays \<and>
            run_addresses r ! run_i r = a"
    let ?rb = "r\<lparr>run_point := AtBoundedLookup\<rparr>"
    let ?r1 = "?rb\<lparr>run_trace := run_trace ?rb @ try_effects env a (clock st)\<rparr>"
    have na: "next_attempt r st = (?rb, st)" using 3 f by (simp add: next_attempt_def)
    have t: "level E C (foldl (pair_tick env) (?rb, st) [clock st..<clock st1]) =
             level E C (then_job g ?r1 st1)"
      using try_geocode_stepwise[of ?rb a env st "Inr g" st1 E C] 3(3) f by simp
    have nw: "new_effects st st1 = try_effects env a (clock st)"
      using 3(3) try_geocode_new[of st env a] by simp
    have "run_addresses ?r1 = run_addresses r \<and> run_i ?r1 = run_i r \<and>
        run_trace ?r1 = run_trace r @ new_effects st (snd (Returned g, st1)) \<and>
        level E C (foldl (pair_tick env) (next_attempt r st) [clock st..<clock (snd (Returned g, st1))]) =
        level E C (after_resolver (fst (Returned g, st1)) ?r1 (snd (Returned g, st1)))"
      using na t nw by (simp add: after_resolver_def)
    then show "\<exists>r1::run. run_addresses r1 = run_addresses r \<and> run_i r1 = run_i r \<and>
        run_trace r1 = run_trace r @ new_effects st (snd (Returned g, st1)) \<and>
        level E C (foldl (pair_tick env) (next_attempt r st) [clock st..<clock (snd (Returned g, st1))]) =
        level E C (after_resolver (fst (Returned g, st1)) r1 (snd (Returned g, st1)))"
      by (rule exI)
  qed
next
  case (4 le n st e st1)
  show ?case
  proof (intro allI impI)
    fix r :: run and E C
    assume f: "run_attempt r = n \<and> run_retryCount r = rc \<and> run_retryDelays r = delays \<and>
            run_addresses r ! run_i r = a"
    let ?rb = "r\<lparr>run_point := AtBoundedLookup\<rparr>"
    let ?rt = "?rb\<lparr>run_trace := run_trace ?rb @ try_effects env a (clock st)\<rparr>"
    let ?r1 = "?rt\<lparr>run_lastError := ThrownError e\<rparr>"
    let ?s1 = "st1\<lparr>mapError := Some InvalidApiKey\<rparr>"
    have na: "next_attempt r st = (?rb, st)" using 4 f by (simp add: next_attempt_def)
    have t: "level E C (foldl (pair_tick env) (?rb, st) [clock st..<clock st1]) =
             level E C (catch_attempt e ?rt st1)"
      using try_geocode_stepwise[of ?rb a env st "Inl e" st1 E C] 4(3) f by simp
    have ca: "catch_attempt e ?rt st1 = catch_job ?r1 ?s1"
      using 4(4) by (simp add: catch_attempt_def Let_def)
    have nw: "new_effects st ?s1 = try_effects env a (clock st)"
      using 4(3) try_geocode_new[of st env a] by (simp add: new_effects_def)
    have "run_addresses ?r1 = run_addresses r \<and> run_i ?r1 = run_i r \<and>
        run_trace ?r1 = run_trace r @ new_effects st (snd (Threw (ThrownError e), ?s1)) \<and>
        level E C (foldl (pair_tick env) (next_attempt r st)
                     [clock st..<clock (snd (Threw (ThrownError e), ?s1))]) =
        level E C (after_resolver (fst (Threw (ThrownError e), ?s1)) ?r1
                     (snd (Threw (ThrownError e), ?s1)))"
      using na t ca nw by (simp add: after_resolver_def)
    then show "\<exists>r1::run. run_addresses r1 = run_addresses r \<and> run_i r1 = run_i r \<and>
        run_trace r1 = run_trace r @ new_effects st (snd (Threw (ThrownError e), ?s1)) \<and>
        level E C (foldl (pair_tick env) (next_attempt r st)
                     [clock st..<clock (snd (Threw (ThrownError e), ?s1))]) =
        level E C (after_resolver (fst (Threw (ThrownError e), ?s1)) r1
                     (snd (Threw (ThrownError e), ?s1)))"
      by (rule exI)
  qed
next
  case (5 le n st e st1 st2)
  let ?res = "retry_loop env a rc delays (ThrownError e) (Suc n) st2"
  let ?tm = "ERetryDelay (js_index delays (min (int n) (int (length delays) - 1)))"
  show ?case
  proof (intro allI impI)
    fix r :: run and E C
    assume f: "run_attempt r = n \<and> run_retryCount r = rc \<and> run_retryDelays r = delays \<and>
            run_addresses r ! run_i r = a"
    let ?rb = "r\<lparr>run_point := AtBoundedLookup\<rparr>"
    let ?rt = "?rb\<lparr>run_trace := run_trace ?rb @ try_effects env a (clock st)\<rparr>"
    let ?rd = "?rt\<lparr>run_lastError := ThrownError e\<rparr>\<lparr>run_point := AtRetryDelay\<rparr>"
    let ?r2 = "?rd\<lparr>run_trace := run_trace ?rd @ [?tm], run_attempt := Suc n\<rparr>"
    let ?c1 = "clock st1"
    have na: "next_attempt r st = (?rb, st)" using 5 f by (simp add: next_attempt_def)
    have t: "level E C (foldl (pair_tick env) (?rb, st) [clock st..<?c1]) =
             level E C (catch_attempt e ?rt st1)"
      using try_geocode_stepwise[of ?rb a env st "Inl e" st1 E C] 5(3) f by simp
    have ca: "catch_attempt e ?rt st1 = (?rd, st1)"
      using 5(4,5) f by (simp add: catch_attempt_def Let_def)
    have s2: "st2 = (click_while_suspended (env ?c1) st1)
                      \<lparr>effects := effects st1 @ [?tm], clock := Suc ?c1\<rparr>"
      using 5(6) by (simp add: await_timeout_level)
    have tk: "pair_tick env (?rd, st1) ?c1 =
                next_attempt ?r2 (click_while_suspended (env ?c1) st1)"
      using f by (simp add: pair_tick_def resume_def Let_def)
    have t2: "level E C (foldl (pair_tick env) (?rd, st1) [?c1..<Suc ?c1]) =
              level E C (next_attempt ?r2 st2)"
      unfolding one_tick tk s2 next_attempt_level by simp
    have f2: "run_attempt ?r2 = Suc n \<and> run_retryCount ?r2 = rc \<and> run_retryDelays ?r2 = delays \<and>
            run_addresses ?r2 ! run_i ?r2 = a"
      using f by simp
    obtain r1 where r1: "run_addresses r1 = run_addresses ?r2" "run_i r1 = run_i ?r2"
      "run_trace r1 = run_trace ?r2 @ new_effects st2 (snd ?res)"
      "level E C (foldl (pair_tick env) (next_attempt ?r2 st2) [clock st2..<clock (snd ?res)]) =
       level E C (after_resolver (fst ?res) r1 (snd ?res))"
      using 5(7) f2 by blast
    have c01: "clock st \<le> ?c1" using try_geocode_clock[of env a st] 5(3) by simp
    have c2: "clock st2 = Suc ?c1" using s2 by simp
    have c2F: "Suc ?c1 \<le> clock (snd ?res)"
      using retry_loop_clock[of env a rc delays "ThrownError e" "Suc n" st2] c2 by simp
    have step1: "level E C (foldl (pair_tick env) (?rb, st) [clock st..<Suc ?c1]) =
                 level E C (next_attempt ?r2 st2)"
    proof (rule foldl_ticks_compose[where ?c1.0 = ?c1 and q = "(?rd, st1)"])
      show "clock st \<le> ?c1" by (rule c01)
      show "?c1 \<le> Suc ?c1" by simp
      show "level E C (foldl (pair_tick env) (?rb, st) [clock st..<?c1]) = level E C (?rd, st1)"
        using t ca by simp
      show "level E C (foldl (pair_tick env) (?rd, st1) [?c1..<Suc ?c1]) =
            level E C (next_attempt ?r2 st2)"
        by (rule t2)
    qed
    have all: "level E C (foldl (pair_tick env) (?rb, st) [clock st..<clock (snd ?res)]) =
               level E C (after_resolver (fst ?res) r1 (snd ?res))"
    proof (rule foldl_ticks_compose[where ?c1.0 = "Suc ?c1" and q = "next_attempt ?r2 st2"])
      show "clock st \<le> Suc ?c1" using c01 by simp
      show "Suc ?c1 \<le> clock (snd ?res)" by (rule c2F)
      show "level E C (foldl (pair_tick env) (?rb, st) [clock st..<Suc ?c1]) =
            level E C (next_attempt ?r2 st2)"
        by (rule step1)
      show "level E C (foldl (pair_tick env) (next_attempt ?r2 st2) [Suc ?c1..<clock (snd ?res)]) =
            level E C (after_resolver (fst ?res) r1 (snd ?res))"
        using r1(4) c2 by simp
    qed
    have tr: "run_trace r1 = run_trace r @ new_effects st (snd ?res)"
      using r1(3) new_effects_retry[OF 5(3) 5(6), of rc delays "ThrownError e" "Suc n"] by simp
    have "run_addresses r1 = run_addresses r \<and> run_i r1 = run_i r \<and>
        run_trace r1 = run_trace r @ new_effects st (snd ?res) \<and>
        level E C (foldl (pair_tick env) (next_attempt r st) [clock st..<clock (snd ?res)]) =
        level E C (after_resolver (fst ?res) r1 (snd ?res))"
      using r1(1,2) tr all na by simp
    then show "\<exists>r1::run. run_addresses r1 = run_addresses r \<and> run_i r1 = run_i r \<and>
        run_trace r1 = run_trace r @ new_effects st (snd ?res) \<and>
        level E C (foldl (pair_tick env) (next_attempt r st) [clock st..<clock (snd ?res)]) =
        level E C (after_resolver (fst ?res) r1 (snd ?res))"
      by (rule exI)
  qed
next
  case (6 le n st e st1)
  let ?res = "retry_loop env a rc delays (ThrownError e) (Suc n) st1"
  show ?case
  proof (intro allI impI)
    fix r :: run and E C
    assume f: "run_attempt r = n \<and> run_retryCount r = rc \<and> run_retryDelays r = delays \<and>
            run_addresses r ! run_i r = a"
    let ?rb = "r\<lparr>run_point := AtBoundedLookup\<rparr>"
    let ?rt = "?rb\<lparr>run_trace := run_trace ?rb @ try_effects env a (clock st)\<rparr>"
    let ?r2 = "?rt\<lparr>run_lastError := ThrownError e\<rparr>\<lparr>run_attempt := Suc n\<rparr>"
    let ?c1 = "clock st1"
    have na: "next_attempt r st = (?rb, st)" using 6 f by (simp add: next_attempt_def)
    have t: "level E C (foldl (pair_tick env) (?rb, st) [clock st..<?c1]) =
             level E C (catch_attempt e ?rt st1)"
      using try_geocode_stepwise[of ?rb a env st "Inl e" st1 E C] 6(3) f by simp
    have ca: "catch_attempt e ?rt st1 = next_attempt ?r2 st1"
      using 6(4,5) f by (simp add: catch_attempt_def Let_def)
    have f2: "run_attempt ?r2 = Suc n \<and> run_retryCount ?r2 = rc \<and> run_retryDelays ?r2 = delays \<and>
            run_addresses ?r2 ! run_i ?r2 = a"
      using f by simp
    obtain r1 where r1: "run_addresses r1 = run_addresses ?r2" "run_i r1 = run_i ?r2"
      "run_trace r1 = run_trace ?r2 @ new_effects st1 (snd ?res)"
      "level E C (foldl (pair_tick env) (next_attempt ?r2 st1) [?c1..<clock (snd ?res)]) =
       level E C (after_resolver (fst ?res) r1 (snd ?res))"
      using 6(6) f2 by blast
    have c01: "clock st \<le> ?c1" using try_geocode_clock[of env a st] 6(3) by simp
    have c1F: "?c1 \<le> clock (snd ?res)"
      using retry_loop_clock[of env a rc delays "ThrownError e" "Suc n" st1] by simp
    have all: "level E C (foldl (pair_tick env) (?rb, st) [clock st..<clock (snd ?res)]) =
               level E C (after_resolver (fst ?res) r1 (snd ?res))"
    proof (rule foldl_ticks_compose[where ?c1.0 = ?c1 and q = "next_attempt ?r2 st1"])
      show "clock st \<le> ?c1" by (rule c01)
      show "?c1 \<le> clock (snd ?res)" by (rule c1F)
      show "level E C (foldl (pair_tick env) (?rb, st) [clock st..<?c1]) =
            level E C (next_attempt ?r2 st1)"
        using t ca by simp
      show "level E C (foldl (pair_tick env) (next_attempt ?r2 st1) [?c1..<clock (snd ?res)]) =
            level E C (after_resolver (fst ?res) r1 (snd ?res))"
        by (rule r1(4))
    qed
    have tr: "run_trace r1 = run_trace r @ new_effects st (snd ?res)"
      using r1(3) new_effects_final[OF 6(3), of rc delays "ThrownError e" "Suc n"] by simp
    have "run_addresses r1 = run_addresses r \<and> run_i r1 = run_i r \<and>
        run_trace r1 = run_trace r @ new_effects st (snd ?res) \<and>
        level E C (foldl (pair_tick env) (next_attempt r st) [clock st..<clock (snd ?res)]) =
        level E C (after_resolver (fst ?res) r1 (snd ?res))"
      using r1(1,2) tr all na by simp
    then show "\<exists>r1::run. run_addresses r1 = run_addresses r \<and> run_i r1 = run_i r \<and>
        run_trace r1 = run_trace r @ new_effects st (snd ?res) \<and>
        level E C (foldl (pair_tick env) (next_attempt r st) [clock st..<clock (snd ?res)]) =
        level E C (after_resolver (fst ?res) r1 (snd ?res))"
      by (rule exI)
  qed
qed


text \<open>The pause after a job, which is one tick.\<close>

lemma pause_stepwise:
  assumes "run_point rp = AtPause"
  shows "level E C (foldl (pair_tick env) (rp, sP) [clock sP..<Suc (clock sP)]) =
         level E C (next_job (rp\<lparr>run_trace := run_trace rp @ [EPause GEOCODE_DELAY_MS],
                                 run_i := Suc (run_i rp)\<rparr>)
                      (await_timeout env (EPause GEOCODE_DELAY_MS) sP))"
  unfolding one_tick await_timeout_level next_job_level
  using assms by (simp add: pair_tick_def resume_def Let_def)

lemma new_effects_trans:
  assumes "effects b = effects a @ x" and "effects c = effects b @ y"
  shows "new_effects a c = new_effects a b @ new_effects b c"
  using assms by (simp add: new_effects_def)

lemma search_step_grows:
  assumes "search_step env addresses i st = (brk, st')"
  shows "\<exists>new. effects st' = effects st @ new \<and> clock st' = clock st + length new"
  using assms
proof (cases rule: search_step_cases)
  case (found g st1)
  then show ?thesis using geocodeWithRetry_effects(1,2)[OF found(1)]
    by (simp add: await_timeout_fields addPlacemark_def)
next
  case (not_found st1)
  then show ?thesis using geocodeWithRetry_effects(1,2)[OF not_found(1)]
    by (simp add: await_timeout_fields)
next
  case (failed err st1)
  then show ?thesis using geocodeWithRetry_effects(1,2)[OF failed(1)]
    by (simp add: await_timeout_fields)
next
  case (halted err st1)
  then show ?thesis using geocodeWithRetry_effects(1,2)[OF halted(1)]
    by (simp add: stopSearch_def)
qed

lemma search_states_grows:
  "\<exists>new. effects (last (search_states env addresses i st)) = effects st @ new \<and>
         clock (last (search_states env addresses i st)) = clock st + length new"
proof (rule search_states_rounds[where P = "\<lambda>i st states.
         \<exists>new. effects (last states) = effects st @ new \<and>
               clock (last states) = clock st + length new"], goal_cases)
  case (1 i st)
  then show ?case by simp
next
  case (2 i st st')
  then show ?case using search_step_grows[OF 2(3)] by simp
next
  case (3 i st st')
  obtain x where x: "effects st' = effects st @ x" "clock st' = clock st + length x"
    using search_step_grows[OF 3(3)] by blast
  obtain y where y: "effects (last (search_states env addresses (Suc i) st')) = effects st' @ y"
      "clock (last (search_states env addresses (Suc i) st')) = clock st' + length y"
    using 3(4) by blast
  have "effects (last (st # search_states env addresses (Suc i) st')) = effects st @ (x @ y) \<and>
        clock (last (st # search_states env addresses (Suc i) st')) = clock st + length (x @ y)"
    using x y by (simp add: search_states_nonempty)
  then show ?case by (rule exI)
qed

text \<open>What \<open>startSearch\<close> does after \<open>geocodeWithRetry\<close>, in the two views.\<close>

lemma search_step_after:
  assumes "search_step env addresses i st = (brk, st')"
    and "run_addresses r1 = addresses" and "run_i r1 = i"
    and "geocodeWithRetry env (addresses ! i) st = (res, st1)"
  shows "(brk \<longrightarrow> after_resolver res r1 st1 = end_run r1 st' \<and> clock st' = clock st1 \<and>
                 effects st' = effects st1) \<and>
         (\<not> brk \<longrightarrow> (\<exists>sP. after_resolver res r1 st1 = (r1\<lparr>run_point := AtPause\<rparr>, sP) \<and>
                 st' = await_timeout env (EPause GEOCODE_DELAY_MS) sP \<and>
                 clock sP = clock st1 \<and> effects sP = effects st1))"
  using assms(1)
proof (cases rule: search_step_cases)
  case (found g s1)
  then show ?thesis using assms(2,3,4)
    by (simp add: after_resolver_def then_job_def Let_def addPlacemark_def)
next
  case (not_found s1)
  then show ?thesis using assms(2,3,4)
    by (simp add: after_resolver_def then_job_def Let_def)
next
  case (failed err s1)
  then show ?thesis using assms(2,3,4)
    by (simp add: after_resolver_def catch_job_def Let_def)
next
  case (halted err s1)
  then show ?thesis using assms(2,3,4)
    by (simp add: after_resolver_def catch_job_def Let_def stopSearch_def)
qed


text \<open>One round of the search loop, tick by tick.\<close>

lemma search_step_stepwise:
  fixes r :: run
  assumes ra: "run_addresses r = addresses" and ri: "run_i r = i"
    and i: "i < length addresses" and nc: "\<not> searchCancelled st"
    and ss: "search_step env addresses i st = (brk, st')"
  shows "\<exists>r'::run. run_addresses r' = addresses \<and> run_i r' = (if brk then i else Suc i) \<and>
           run_trace r' = run_trace r @ new_effects st st' \<and>
           level E C (foldl (pair_tick env) (next_job r st) [clock st..<clock st']) =
           level E C (if brk then end_run r' st' else next_job r' st')"
proof -
  let ?r0 = "r\<lparr>run_retryCount := retryCount (settings st),
                 run_retryDelays := retryDelays (settings st),
                 run_lastError := ThrownNull, run_attempt := 0\<rparr>"
  let ?loop = "retry_loop env (addresses ! i) (retryCount (settings st))
                 (retryDelays (settings st)) ThrownNull 0 st"
  obtain res st1 where g: "geocodeWithRetry env (addresses ! i) st = (res, st1)"
    by (cases "geocodeWithRetry env (addresses ! i) st")
  have l: "?loop = (res, st1)" using g by (simp add: geocodeWithRetry_def)
  have nj: "next_job r st = next_attempt ?r0 st"
    using ra ri i nc by (simp add: next_job_def)
  have f0: "run_attempt ?r0 = 0 \<and> run_retryCount ?r0 = retryCount (settings st) \<and>
            run_retryDelays ?r0 = retryDelays (settings st) \<and>
            run_addresses ?r0 ! run_i ?r0 = addresses ! i"
    using ra ri by simp
  obtain r1 :: run where r1: "run_addresses r1 = run_addresses ?r0" "run_i r1 = run_i ?r0"
      "run_trace r1 = run_trace ?r0 @ new_effects st (snd ?loop)"
      "level E C (foldl (pair_tick env) (next_attempt ?r0 st) [clock st..<clock (snd ?loop)]) =
       level E C (after_resolver (fst ?loop) r1 (snd ?loop))"
    using retry_loop_stepwise[of 0 "retryCount (settings st)" "retryDelays (settings st)"
        "addresses ! i" st env ThrownNull] f0 by blast
  have r1a: "run_addresses r1 = addresses" "run_i r1 = i" using r1(1,2) ra ri by simp_all
  have tr1: "run_trace r1 = run_trace r @ new_effects st st1" using r1(3) l by simp
  have lv1: "level E C (foldl (pair_tick env) (next_job r st) [clock st..<clock st1]) =
             level E C (after_resolver res r1 st1)"
    using r1(4) l nj by simp
  have e1: "effects st1 = effects st @ new_effects st st1"
    and c1: "clock st1 = clock st + length (new_effects st st1)"
    using geocodeWithRetry_effects(1,2)[OF g] by simp_all
  note after = search_step_after[OF ss r1a g]
  show ?thesis
  proof (cases brk)
    case True
    then have a: "after_resolver res r1 st1 = end_run r1 st'" "clock st' = clock st1"
        "effects st' = effects st1"
      using after by simp_all
    have "run_addresses r1 = addresses \<and> run_i r1 = (if brk then i else Suc i) \<and>
           run_trace r1 = run_trace r @ new_effects st st' \<and>
           level E C (foldl (pair_tick env) (next_job r st) [clock st..<clock st']) =
           level E C (if brk then end_run r1 st' else next_job r1 st')"
      using True r1a tr1 lv1 a by (simp add: new_effects_def)
    then show ?thesis by (rule exI)
  next
    case False
    then obtain sP where a: "after_resolver res r1 st1 = (r1\<lparr>run_point := AtPause\<rparr>, sP)"
        "st' = await_timeout env (EPause GEOCODE_DELAY_MS) sP"
        "clock sP = clock st1" "effects sP = effects st1"
      using after by blast
    let ?rp = "r1\<lparr>run_point := AtPause\<rparr>"
    let ?r2 = "?rp\<lparr>run_trace := run_trace ?rp @ [EPause GEOCODE_DELAY_MS],
                    run_i := Suc (run_i ?rp)\<rparr>"
    have c2: "clock st' = Suc (clock st1)" using a by (simp add: await_timeout_fields)
    have e2: "effects st' = effects st1 @ [EPause GEOCODE_DELAY_MS]"
      using a by (simp add: await_timeout_fields)
    have p: "level E C (foldl (pair_tick env) (?rp, sP) [clock st1..<Suc (clock st1)]) =
             level E C (next_job ?r2 st')"
      using pause_stepwise[of ?rp E C env sP] a by simp
    have lv: "level E C (foldl (pair_tick env) (next_job r st) [clock st..<clock st']) =
              level E C (next_job ?r2 st')"
      unfolding c2
    proof (rule foldl_ticks_compose[where ?c1.0 = "clock st1" and q = "(?rp, sP)"])
      show "clock st \<le> clock st1" using c1 by simp
      show "clock st1 \<le> Suc (clock st1)" by simp
      show "level E C (foldl (pair_tick env) (next_job r st) [clock st..<clock st1]) =
            level E C (?rp, sP)"
        using lv1 a by simp
      show "level E C (foldl (pair_tick env) (?rp, sP) [clock st1..<Suc (clock st1)]) =
            level E C (next_job ?r2 st')"
        by (rule p)
    qed
    have n2: "new_effects st1 st' = [EPause GEOCODE_DELAY_MS]"
      using e2 by (simp add: new_effects_def)
    have tr: "run_trace ?r2 = run_trace r @ new_effects st st'"
      using tr1 new_effects_trans[OF e1 e2] n2 by simp
    have "run_addresses ?r2 = addresses \<and> run_i ?r2 = (if brk then i else Suc i) \<and>
           run_trace ?r2 = run_trace r @ new_effects st st' \<and>
           level E C (foldl (pair_tick env) (next_job r st) [clock st..<clock st']) =
           level E C (if brk then end_run ?r2 st' else next_job ?r2 st')"
      using False r1a tr lv by simp
    then show ?thesis by (rule exI)
  qed
qed

text \<open>The search loop, tick by tick.\<close>

lemma search_states_stepwise:
  "\<forall>(r::run) E C. run_addresses r = addresses \<and> run_i r = i \<longrightarrow>
     (\<exists>rF::run. run_trace rF = run_trace r @
                  new_effects st (last (search_states env addresses i st)) \<and>
        level E C (foldl (pair_tick env) (next_job r st)
                     [clock st..<clock (last (search_states env addresses i st))]) =
        level E C (end_run rF (last (search_states env addresses i st))))"
proof (rule search_states_rounds[where P = "\<lambda>i st states.
   \<forall>(r::run) E C. run_addresses r = addresses \<and> run_i r = i \<longrightarrow>
     (\<exists>rF::run. run_trace rF = run_trace r @ new_effects st (last states) \<and>
        level E C (foldl (pair_tick env) (next_job r st) [clock st..<clock (last states)]) =
        level E C (end_run rF (last states)))"], goal_cases)
  case (1 i st)
  show ?case
  proof (intro allI impI)
    fix r :: run and E C
    assume f: "run_addresses r = addresses \<and> run_i r = i"
    have "next_job r st = end_run r st" using 1 f by (auto simp add: next_job_def)
    then have "run_trace r = run_trace r @ new_effects st (last [st]) \<and>
        level E C (foldl (pair_tick env) (next_job r st) [clock st..<clock (last [st])]) =
        level E C (end_run r (last [st]))"
      by (simp add: new_effects_self)
    then show "\<exists>rF::run. run_trace rF = run_trace r @ new_effects st (last [st]) \<and>
        level E C (foldl (pair_tick env) (next_job r st) [clock st..<clock (last [st])]) =
        level E C (end_run rF (last [st]))"
      by (rule exI)
  qed
next
  case (2 i st st')
  show ?case
  proof (intro allI impI)
    fix r :: run and E C
    assume f: "run_addresses r = addresses \<and> run_i r = i"
    obtain r' :: run where r': "run_trace r' = run_trace r @ new_effects st st'"
        "level E C (foldl (pair_tick env) (next_job r st) [clock st..<clock st']) =
         level E C (end_run r' st')"
      using search_step_stepwise[of r addresses i st env True st' E C] f 2 by auto
    have "run_trace r' = run_trace r @ new_effects st (last [st, st']) \<and>
        level E C (foldl (pair_tick env) (next_job r st) [clock st..<clock (last [st, st'])]) =
        level E C (end_run r' (last [st, st']))"
      using r' by simp
    then show "\<exists>rF::run. run_trace rF = run_trace r @ new_effects st (last [st, st']) \<and>
        level E C (foldl (pair_tick env) (next_job r st) [clock st..<clock (last [st, st'])]) =
        level E C (end_run rF (last [st, st']))"
      by (rule exI)
  qed
next
  case (3 i st st')
  let ?sL = "last (search_states env addresses (Suc i) st')"
  have lst: "last (st # search_states env addresses (Suc i) st') = ?sL"
    by (simp add: search_states_nonempty)
  show ?case unfolding lst
  proof (intro allI impI)
    fix r :: run and E C
    assume f: "run_addresses r = addresses \<and> run_i r = i"
    obtain r' :: run where r': "run_addresses r' = addresses" "run_i r' = Suc i"
        "run_trace r' = run_trace r @ new_effects st st'"
        "level E C (foldl (pair_tick env) (next_job r st) [clock st..<clock st']) =
         level E C (next_job r' st')"
      using search_step_stepwise[of r addresses i st env False st' E C] f 3(1,2,3) by auto
    obtain rF :: run where rF: "run_trace rF = run_trace r' @ new_effects st' ?sL"
        "level E C (foldl (pair_tick env) (next_job r' st') [clock st'..<clock ?sL]) =
         level E C (end_run rF ?sL)"
      using 3(4) r'(1,2) by blast
    obtain x where x: "effects st' = effects st @ x" "clock st' = clock st + length x"
      using search_step_grows[OF 3(3)] by blast
    obtain y where y: "effects ?sL = effects st' @ y" "clock ?sL = clock st' + length y"
      using search_states_grows[of env addresses "Suc i" st'] by blast
    have lv: "level E C (foldl (pair_tick env) (next_job r st) [clock st..<clock ?sL]) =
              level E C (end_run rF ?sL)"
    proof (rule foldl_ticks_compose[where ?c1.0 = "clock st'" and q = "next_job r' st'"])
      show "clock st \<le> clock st'" using x by simp
      show "clock st' \<le> clock ?sL" using y by simp
      show "level E C (foldl (pair_tick env) (next_job r st) [clock st..<clock st']) =
            level E C (next_job r' st')"
        by (rule r'(4))
      show "level E C (foldl (pair_tick env) (next_job r' st') [clock st'..<clock ?sL]) =
            level E C (end_run rF ?sL)"
        by (rule rF(2))
    qed
    have tr: "run_trace rF = run_trace r @ new_effects st ?sL"
      using rF(1) r'(3) new_effects_trans[OF x(1) y(1)] by simp
    have "run_trace rF = run_trace r @ new_effects st ?sL \<and>
        level E C (foldl (pair_tick env) (next_job r st) [clock st..<clock ?sL]) =
        level E C (end_run rF ?sL)"
      using tr lv by simp
    then show "\<exists>rF::run. run_trace rF = run_trace r @ new_effects st ?sL \<and>
        level E C (foldl (pair_tick env) (next_job r st) [clock st..<clock ?sL]) =
        level E C (end_run rF ?sL)"
      by (rule exI)
  qed
qed


lemma with_call_level:
  "(with_call k r s)\<lparr>effects := E, clock := C\<rparr> = with_call k r (s\<lparr>effects := E, clock := C\<rparr>)"
  by (simp add: with_call_def)

lemma with_call_last: "k = length (runs s) \<Longrightarrow> with_call k r s = s\<lparr>runs := runs s @ [r]\<rparr>"
  by (simp add: with_call_def)

lemma finish_search_end_run:
  "level (effects (finish_search s)) (clock (finish_search s)) (end_run rF s) =
     (fst (end_run rF s), finish_search s)"
  by (simp add: level_def end_run_def finish_search_def)

lemma finish_search_new:
  assumes "effects s = effects st @ y"
  shows "new_effects st (finish_search s) =
           new_effects st s @ (if length (geoObjectsCollection s) > 0 then [ESetBounds] else [])"
  using assms by (simp add: new_effects_def finish_search_def)

text \<open>
  A call of \<open>startSearch\<close> followed from its call to its end, and the same call among
  the calls of the page, resumed at every tick after the click of that tick: they
  leave the same component, and the call has ended with the effects of the followed
  call as its trace.
\<close>

lemma startSearch_stepwise:
  "\<exists>r::run. run_point r = Ended \<and> run_trace r = new_effects st (startSearch env st) \<and>
     (foldl (tick_step env (length (runs st))) (start_run st)
        [clock st..<clock (startSearch env st)])
       \<lparr>effects := effects (startSearch env st), clock := clock (startSearch env st)\<rparr> =
     with_call (length (runs st)) r (startSearch env st)"
proof -
  let ?k = "length (runs st)"
  let ?r0 = "\<lparr>run_addresses = [], run_i = 0, run_retryCount = retryCount (settings st),
                 run_retryDelays = retryDelays (settings st), run_lastError = ThrownNull,
                 run_attempt = 0, run_point = Ended, run_trace = []\<rparr>"
  let ?st1 = "begin_search st"
  let ?addresses = "address_lines (addressesInput ?st1)"
  show ?thesis
  proof (cases "mapInitialized st")
    case False
    let ?r = "?r0\<lparr>run_trace := [EAlert AlertMapNotReady]\<rparr>"
    have c: "call_startSearch st = (?r, st)" using False by (simp add: call_startSearch_def)
    have s: "startSearch env st = st\<lparr>effects := effects st @ [EAlert AlertMapNotReady]\<rparr>"
      using False by (simp add: startSearch_def)
    have "run_point ?r = Ended \<and> run_trace ?r = new_effects st (startSearch env st) \<and>
     (foldl (tick_step env ?k) (start_run st) [clock st..<clock (startSearch env st)])
       \<lparr>effects := effects (startSearch env st), clock := clock (startSearch env st)\<rparr> =
     with_call ?k ?r (startSearch env st)"
      unfolding s by (simp add: start_run_alt c with_call_def new_effects_def)
    then show ?thesis by (rule exI)
  next
    case True
    note ready = True
    show ?thesis
    proof (cases "length ?addresses = 0")
      case True
      let ?r = "?r0\<lparr>run_addresses := ?addresses\<rparr>"
      have c: "call_startSearch st = (?r, ?st1\<lparr>isSearching := False\<rparr>)"
        using ready True by (simp add: call_startSearch_def Let_def)
      have s: "startSearch env st = ?st1\<lparr>isSearching := False\<rparr>"
        using ready True by (simp add: startSearch_def Let_def)
      have "run_point ?r = Ended \<and> run_trace ?r = new_effects st (startSearch env st) \<and>
       (foldl (tick_step env ?k) (start_run st) [clock st..<clock (startSearch env st)])
         \<lparr>effects := effects (startSearch env st), clock := clock (startSearch env st)\<rparr> =
       with_call ?k ?r (startSearch env st)"
        unfolding s
        by (simp add: start_run_alt c with_call_def new_effects_def begin_search_fields)
      then show ?thesis by (rule exI)
    next
      case False
      let ?r = "?r0\<lparr>run_addresses := ?addresses\<rparr>"
      let ?sL = "last (search_states env ?addresses 0 ?st1)"
      let ?sF = "finish_search ?sL"
      let ?p0 = "next_job ?r ?st1"
      let ?ts = "[clock st..<clock ?sL]"
      have c: "call_startSearch st = ?p0"
        using ready False by (simp add: call_startSearch_def Let_def)
      have s: "startSearch env st = ?sF"
        using ready False by (simp add: startSearch_def Let_def)
      have cF: "clock ?sF = clock ?sL" by (simp add: finish_search_fields)
      obtain rF :: run where rF: "run_trace rF = run_trace ?r @ new_effects ?st1 ?sL"
          "level (effects ?sF) (clock ?sF)
             (foldl (pair_tick env) ?p0 [clock ?st1..<clock ?sL]) =
           level (effects ?sF) (clock ?sF) (end_run rF ?sL)"
        using search_states_stepwise[of ?addresses 0 ?st1 env] by force
      obtain y where y: "effects ?sL = effects ?st1 @ y"
        using search_states_grows[of env ?addresses 0 ?st1] by blast
      let ?rE = "fst (end_run rF ?sL)"
      have kr: "runs (snd ?p0) = runs st"
        using call_startSearch_frame(5)[of st] c by simp
      have k: "?k = length (runs (snd ?p0))"
        using kr by simp
      have sr: "start_run st = with_call ?k (fst ?p0) (snd ?p0)"
        using kr c by (simp add: start_run_alt with_call_def)
      have fl: "foldl (tick_step env ?k) (start_run st) ?ts =
                with_call ?k (fst (foldl (pair_tick env) ?p0 ?ts))
                  (snd (foldl (pair_tick env) ?p0 ?ts))"
        unfolding sr using k by (intro foldl_tick_step_with_call) simp
      have lv: "level (effects ?sF) (clock ?sF) (foldl (pair_tick env) ?p0 ?ts) = (?rE, ?sF)"
        using rF(2) by (simp add: begin_search_fields finish_search_end_run)
      have st: "(foldl (tick_step env ?k) (start_run st) ?ts)
                  \<lparr>effects := effects ?sF, clock := clock ?sF\<rparr> = with_call ?k ?rE ?sF"
      proof -
        have "(foldl (tick_step env ?k) (start_run st) ?ts)
                  \<lparr>effects := effects ?sF, clock := clock ?sF\<rparr> =
              with_call ?k (fst (level (effects ?sF) (clock ?sF) (foldl (pair_tick env) ?p0 ?ts)))
                (snd (level (effects ?sF) (clock ?sF) (foldl (pair_tick env) ?p0 ?ts)))"
          unfolding fl with_call_level by (simp add: level_def)
        then show ?thesis unfolding lv by simp
      qed
      have tr: "run_trace ?rE = new_effects st ?sF"
      proof -
        have "new_effects st ?sF = new_effects ?st1 ?sF"
          by (simp add: new_effects_def begin_search_fields)
        then show ?thesis
          using rF(1) finish_search_new[OF y] by (simp add: end_run_def)
      qed
      have "run_point ?rE = Ended \<and> run_trace ?rE = new_effects st (startSearch env st) \<and>
       (foldl (tick_step env ?k) (start_run st) [clock st..<clock (startSearch env st)])
         \<lparr>effects := effects (startSearch env st), clock := clock (startSearch env st)\<rparr> =
       with_call ?k ?rE (startSearch env st)"
        unfolding s cF using tr st cF by (simp add: end_run_def)
      then show ?thesis by (rule exI)
    qed
  qed
qed

text \<open>
  A call of \<open>startSearch\<close> taken one suspension at a time and the same call followed
  from its call to its end, on the example of the specification: the component,
  the counters and the log are the same.
\<close>

lemma stepwise_run_example:
  "(let q = settle 0 NoMatch (settle 0 NoMatch (settle 0 NoMatch (settle 0 NoMatch
              (settle 0 (Match house) (toggleSearch two_lines_component)))))
    in map run_point (runs q) = [Ended] \<and>
       q\<lparr>runs := [], effects := run_trace (runs q ! 0), clock := 5\<rparr> =
         startSearch house_env two_lines_component)"
  by code_simp

end
